theory Spec2Isabelle
  imports Main "HOL-Library.AList"
begin

section \<open>Values, errors and settled promises\<close>

text \<open>
  The gather runner of \<^verbatim>\<open>lighthouse-core/gather/gather-runner.js\<close> is embedded
  as functions over an explicit state. This section fixes the data the runner handles.
\<close>

text \<open>The error definitions of \<^verbatim>\<open>LHError.errors\<close> that the runner uses.\<close>

datatype error_code =
    NO_DOCUMENT_REQUEST
  | DNS_FAILURE
  | FAILED_DOCUMENT_REQUEST
  | ERRORED_DOCUMENT_REQUEST

text \<open>
  \<^verbatim>\<open>new LHError(definition, properties)\<close>: the error definition and the properties
  object given to the constructor, as its key/value pairs (no pair when the constructor
  gets no properties).
\<close>

datatype lh_error = LHError error_code "(string \<times> string) list"

text \<open>
  A JavaScript value as the runner sees it: \<^verbatim>\<open>undefined\<close>, \<^verbatim>\<open>null\<close>, an
  \<^verbatim>\<open>LHError\<close>, an \<^verbatim>\<open>Error\<close> by its message (one made by the runner itself, or
  a \<^verbatim>\<open>TypeError\<close> of the engine, written \<open>Err ''TypeError''\<close>), the member of
  \<^verbatim>\<open>Object.prototype\<close> of a given name, or any other value (an artifact, an error
  object thrown by a collaborator), kept opaque.
\<close>

datatype 'a js = Undefined | Null | Val 'a | LHErr lh_error | Err string | ObjectPrototype string

text \<open>
  A settled promise. Every promise the runner stores in a phase history is awaited
  (\<^verbatim>\<open>await artifactPromise.catch(() => {})\<close>) right after it is made, so a history
  holds settled promises only.
\<close>

datatype 'a outcome = Resolved "'a js" | Rejected "'a js"

section \<open>Strings\<close>

text \<open>\<^verbatim>\<open>String.prototype.startsWith\<close> and \<^verbatim>\<open>String.prototype.includes\<close>.\<close>

fun startsWith :: "string \<Rightarrow> string \<Rightarrow> bool" where
  "startsWith s [] = True"
| "startsWith [] (p # ps) = False"
| "startsWith (c # cs) (p # ps) = (c = p \<and> startsWith cs ps)"

fun string_includes :: "string \<Rightarrow> string \<Rightarrow> bool" where
  "string_includes [] sub = startsWith [] sub"
| "string_includes (c # cs) sub = (startsWith (c # cs) sub \<or> string_includes cs sub)"

text \<open>
  A template literal \<^verbatim>\<open>`${n}`\<close> of an integral number: its decimal digits, with a
  minus sign when negative.
\<close>

fun string_of_nat :: "nat \<Rightarrow> string" where
  "string_of_nat n =
     (if n < 10 then [char_of (48 + n)]
      else string_of_nat (n div 10) @ [char_of (48 + n mod 10)])"

declare string_of_nat.simps [simp del]

definition string_of_int :: "int \<Rightarrow> string" where
  "string_of_int i =
     (if i < 0 then CHR ''-'' # string_of_nat (nat (- i)) else string_of_nat (nat i))"

text \<open>Reading a decimal numeral back, to state what \<open>string_of_nat\<close> produces.\<close>

definition digit_val :: "char \<Rightarrow> nat" where
  "digit_val c = of_char c - 48"

definition is_digit :: "char \<Rightarrow> bool" where
  "is_digit c = (48 \<le> (of_char c :: nat) \<and> (of_char c :: nat) \<le> 57)"

definition decimal_val :: "string \<Rightarrow> nat" where
  "decimal_val s = foldl (\<lambda>acc c. 10 * acc + digit_val c) 0 s"

section \<open>Network records and the page-load classifier\<close>

text \<open>
  The fields of \<^verbatim>\<open>LH.Artifacts.NetworkRequest\<close> that \<^verbatim>\<open>getPageLoadError\<close> reads.
\<close>

record network_request =
  url :: string
  failed :: bool
  localizedFailDescription :: string
  statusCode :: int

text \<open>\<^verbatim>\<open>Array.prototype.find\<close>: the first element satisfying the predicate.\<close>

fun array_find :: "('a \<Rightarrow> bool) \<Rightarrow> 'a list \<Rightarrow> 'a option" where
  "array_find P [] = None"
| "array_find P (x # xs) = (if P x then Some x else array_find P xs)"

text \<open>
  \<^verbatim>\<open>GatherRunner.getPageLoadError(url, networkRecords)\<close>. Two helpers live outside
  this file and are parameters: \<open>equalWithExcludedFragments\<close> of \<^verbatim>\<open>lib/url-shim.js\<close>
  and the method \<open>hasErrorStatusCode\<close> of a network record. The result is
  \<open>None\<close> where the function returns \<^verbatim>\<open>undefined\<close>.
\<close>

definition getPageLoadError ::
  "(string \<Rightarrow> string \<Rightarrow> bool) \<Rightarrow> (network_request \<Rightarrow> bool) \<Rightarrow>
   string \<Rightarrow> network_request list \<Rightarrow> lh_error option" where
  "getPageLoadError equalWithExcludedFragments hasErrorStatusCode target networkRecords =
     (let mainRecord = array_find (\<lambda>record. equalWithExcludedFragments (url record) target)
                         networkRecords
      in case mainRecord of
           None \<Rightarrow> Some (LHError NO_DOCUMENT_REQUEST [])
         | Some mainRecord \<Rightarrow>
             if failed mainRecord then
               (let netErr = localizedFailDescription mainRecord
                in if netErr = ''net::ERR_NAME_NOT_RESOLVED'' \<or>
                      netErr = ''net::ERR_NAME_RESOLUTION_FAILED'' \<or>
                      startsWith netErr ''net::ERR_DNS_''
                   then Some (LHError DNS_FAILURE [])
                   else Some (LHError FAILED_DOCUMENT_REQUEST [(''errorDetails'', netErr)]))
             else if hasErrorStatusCode mainRecord then
               Some (LHError ERRORED_DOCUMENT_REQUEST
                       [(''statusCode'', string_of_int (statusCode mainRecord))])
             else None)"

section \<open>Run data\<close>

text \<open>
  The fields of \<^verbatim>\<open>LH.Config.Settings\<close> that the runner reads. A field that may
  be \<^verbatim>\<open>undefined\<close> is an option.
\<close>

record settings =
  emulatedFormFactor :: "string option"
  disableStorageReset :: bool
  blockedUrlPatterns :: "string list option"
  extraHeaders :: "(string \<times> string) list option"

text \<open>
  A devtools log entry: its \<^verbatim>\<open>method\<close> and, for a request entry, the headers
  object \<^verbatim>\<open>params.request.headers\<close> as its key/value pairs.
\<close>

record devtools_entry =
  entry_method :: string
  headers :: "(string \<times> string) list"

text \<open>\<^verbatim>\<open>LH.Gatherer.LoadData\<close>; the trace is absent unless the pass records one.\<close>

record 'a load_data =
  networkRecords :: "network_request list"
  devtoolsLog :: "devtools_entry list"
  trace :: "'a option"

record artifact_url =
  requestedUrl :: string
  finalUrl :: string

record 'a base_artifacts =
  fetchTime :: string
  LighthouseRunWarnings :: "string list"
  TestedAsMobileDevice :: bool
  HostUserAgent :: string
  NetworkUserAgent :: string
  BenchmarkIndex :: int
  WebAppManifest :: "'a option"
  Stacks :: "'a list"
  traces :: "(string \<times> 'a) list"
  devtoolsLogs :: "(string \<times> devtools_entry list) list"
  base_settings :: settings
  URL :: artifact_url
  Timing :: "'a list"

text \<open>
  \<^verbatim>\<open>GathererResults\<close>: per gatherer name, the settled promises of its phases, in
  the order of the object's keys (insertion order; gatherer names are taken not to look
  like array indices, which JavaScript would list first). A JavaScript object has each
  key once, so the keys of such a list are distinct; \<open>obj_set\<close> and
  \<open>object_assign\<close> keep them so.
\<close>

type_synonym 'a gatherer_results = "(string \<times> 'a outcome list) list"

text \<open>
  \<^verbatim>\<open>LH.Artifacts\<close>, the value of \<^verbatim>\<open>{...baseArtifacts, ...gathererArtifacts}\<close>. Its
  type keeps the keys of the base artifacts and the gatherer names apart, so the two
  parts are kept side by side.
\<close>

record 'a artifacts =
  base_part :: "'a base_artifacts"
  gatherer_part :: "(string \<times> 'a js) list"

section \<open>Objects as ordered dictionaries\<close>

text \<open>\<^verbatim>\<open>obj[key]\<close>, \<^verbatim>\<open>obj[key] = v\<close> and \<^verbatim>\<open>Object.assign(target, source)\<close>.\<close>

definition obj_get :: "(string \<times> 'v) list \<Rightarrow> string \<Rightarrow> 'v option" where
  "obj_get obj k = map_of obj k"

definition obj_set :: "string \<Rightarrow> 'v \<Rightarrow> (string \<times> 'v) list \<Rightarrow> (string \<times> 'v) list" where
  "obj_set k v obj = AList.update k v obj"

definition object_assign ::
  "(string \<times> 'v) list \<Rightarrow> (string \<times> 'v) list \<Rightarrow> (string \<times> 'v) list" where
  "object_assign target source = fold (\<lambda>(k, v). obj_set k v) source target"

text \<open>
  \<^verbatim>\<open>gathererResults[name] || []\<close>, for a name under which the object has a
  property of its own or which is not the name of a member of \<^verbatim>\<open>Object.prototype\<close>.
  In \<^verbatim>\<open>runPass\<close>, \<^verbatim>\<open>beforePass\<close> has assigned a history to the name of every
  gatherer of the pass before \<^verbatim>\<open>pass\<close>, \<^verbatim>\<open>afterPass\<close> or
  \<^verbatim>\<open>fillWithPageLoadErrors\<close> reads it, so every read gives what was last assigned.
\<close>

definition history_of :: "'a gatherer_results \<Rightarrow> string \<Rightarrow> 'a outcome list" where
  "history_of gathererResults n =
     (case obj_get gathererResults n of None \<Rightarrow> [] | Some gathererResult \<Rightarrow> gathererResult)"

text \<open>\<^verbatim>\<open>Array.from(new Set(xs))\<close>: the first occurrence of each element, in order.\<close>

fun unique :: "'v list \<Rightarrow> 'v list" where
  "unique [] = []"
| "unique (x # xs) = x # unique (filter (\<lambda>y. y \<noteq> x) xs)"

section \<open>The driver, the gatherers and the other collaborators\<close>

text \<open>
  The browser session and everything behind it is a world of type \<open>'w\<close>. A call of a
  collaborator takes the world and returns the new one, with either the value thrown
  (or rejected with) or the result. A collaborator whose promise never settles is
  outside the model.
\<close>

datatype goto_options = WaitForNavigated | WaitForLoad bool

text \<open>The driver methods that return nothing.\<close>

datatype driver_command =
    Connect
  | Disconnect
  | AssertNoSameOriginServiceWorkerClients string
  | BeginEmulation settings
  | EnableRuntimeEvents
  | EnableAsyncStacks
  | CacheNatives
  | RegisterPerformanceObserver
  | DismissJavaScriptDialogs
  | ClearDataForOrigin string
  | SetThrottling settings bool
  | BlockUrlPatterns "string list"
  | SetExtraHTTPHeaders "(string \<times> string) list option"
  | CleanBrowserCaches
  | BeginDevtoolsLog
  | BeginTrace settings

text \<open>The calls that return a value.\<close>

datatype driver_query =
    GetBrowserVersion
  | GetBenchmarkIndex
  | GotoURL string goto_options
  | EndTrace
  | EndDevtoolsLog
  | GetAppManifest
  | StackCollector

record ('w, 'a) driver =
  command :: "driver_command \<Rightarrow> 'w \<Rightarrow> ('a js + unit) \<times> 'w"
  getBrowserVersion :: "'w \<Rightarrow> ('a js + string) \<times> 'w"
  getBenchmarkIndex :: "'w \<Rightarrow> ('a js + int) \<times> 'w"
  gotoURL :: "string \<Rightarrow> goto_options \<Rightarrow> 'w \<Rightarrow> ('a js + string) \<times> 'w"
  endTrace :: "'w \<Rightarrow> ('a js + 'a) \<times> 'w"
  endDevtoolsLog :: "'w \<Rightarrow> ('a js + devtools_entry list) \<times> 'w"
  getAppManifest :: "'w \<Rightarrow> ('a js + (string \<times> string) option) \<times> 'w"
  online :: "'w \<Rightarrow> bool"

text \<open>
  What a gatherer hook reads of the pass context: the current URL, the settings, the
  name of the pass, the options of the gatherer (\<open>None\<close> is the empty object of
  \<^verbatim>\<open>gathererDefn.options || {}\<close>) and the base artifacts.
\<close>

record 'a hook_context =
  hook_url :: string
  hook_settings :: settings
  hook_passName :: string
  hook_options :: "'a option"
  hook_baseArtifacts :: "'a base_artifacts"

text \<open>
  A hook acts on the world and settles with a value or a rejection; it may push
  warnings onto \<^verbatim>\<open>passContext.LighthouseRunWarnings\<close>, which are returned with the
  outcome. A synchronous \<^verbatim>\<open>throw\<close> of a hook is a rejection, since every hook is
  called inside \<^verbatim>\<open>Promise.resolve().then\<close>.
\<close>

type_synonym ('w, 'a) hook = "'w \<Rightarrow> ('a outcome \<times> string list) \<times> 'w"

record ('w, 'a) gatherer =
  name :: string
  beforePass_hook :: "'a hook_context \<Rightarrow> ('w, 'a) hook"
  pass_hook :: "'a hook_context \<Rightarrow> ('w, 'a) hook"
  afterPass_hook :: "'a hook_context \<Rightarrow> 'a load_data \<Rightarrow> ('w, 'a) hook"

record ('w, 'a) gatherer_defn =
  instance_of :: "('w, 'a) gatherer"
  options :: "'a option"

record ('w, 'a) pass_config =
  passName :: string
  gatherers :: "('w, 'a) gatherer_defn list"
  recordTrace :: bool
  useThrottling :: bool
  pass_blockedUrlPatterns :: "string list option"
  blankPage :: "string option"

text \<open>
  \<^verbatim>\<open>LH.Gatherer.PassContext\<close>. The driver is passed beside it, and its
  \<^verbatim>\<open>LighthouseRunWarnings\<close> is the array of the base artifacts itself.
\<close>

record ('w, 'a) pass_context =
  ctx_url :: string
  ctx_settings :: settings
  passConfig :: "('w, 'a) pass_config"
  baseArtifacts :: "'a base_artifacts"
  ctx_options :: "'a option"

text \<open>
  The modules the runner requires besides the driver: \<^verbatim>\<open>url-shim\<close>,
  \<^verbatim>\<open>network-recorder\<close>, \<^verbatim>\<open>lh-error\<close>, \<^verbatim>\<open>manifest-parser\<close>,
  \<^verbatim>\<open>stack-collector\<close>, \<^verbatim>\<open>lighthouse-logger\<close>, \<^verbatim>\<open>constants\<close> and the clock.
\<close>

record ('w, 'a) env =
  equalWithExcludedFragments :: "string \<Rightarrow> string \<Rightarrow> bool"
  hasErrorStatusCode :: "network_request \<Rightarrow> bool"
  friendlyMessage :: "lh_error \<Rightarrow> string"
  recordsFromLogs :: "devtools_entry list \<Rightarrow> network_request list"
  manifestParser :: "string \<Rightarrow> string \<Rightarrow> string \<Rightarrow> 'a"
  stacksGatherer :: "'w \<Rightarrow> ('a js + 'a list) \<times> 'w"
  getTimeEntries :: "'w \<Rightarrow> 'a list"
  currentTime :: "'w \<Rightarrow> string"
  defaultBlankPage :: string

section \<open>State and sequencing\<close>

datatype phase = BeforePassPhase | PassPhase | AfterPassPhase

text \<open>
  What the runner did to its collaborators, in order: a hook of a gatherer invoked, a
  driver method invoked, and, for the two results later steps depend on, the value a
  navigation or the end of the devtools log returned.
\<close>

datatype event =
    HookCall phase string
  | Command driver_command
  | Query driver_query
  | Navigated string goto_options string
  | LogEnded "devtools_entry list"

record 'w runner_state =
  world :: 'w
  events :: "event list"

type_synonym ('w, 'a, 'x) action = "'w runner_state \<Rightarrow> ('a js + 'x) \<times> 'w runner_state"

definition return :: "'x \<Rightarrow> ('w, 'a, 'x) action" where
  "return x s = (Inr x, s)"

definition throw :: "'a js \<Rightarrow> ('w, 'a, 'x) action" where
  "throw e s = (Inl e, s)"

text \<open>\<^verbatim>\<open>const x = await m; f(x)\<close>: an exception of \<open>m\<close> skips \<open>f\<close>.\<close>

definition await_then ::
  "('w, 'a, 'x) action \<Rightarrow> ('x \<Rightarrow> ('w, 'a, 'y) action) \<Rightarrow> ('w, 'a, 'y) action" where
  "await_then m f s = (case m s of (Inl e, s') \<Rightarrow> (Inl e, s') | (Inr x, s') \<Rightarrow> f x s')"

definition log_event :: "event \<Rightarrow> 'w runner_state \<Rightarrow> 'w runner_state" where
  "log_event ev s = s\<lparr>events := events s @ [ev]\<rparr>"

text \<open>A call of a collaborator on the world, recorded when it is made.\<close>

definition invoke :: "event \<Rightarrow> ('w \<Rightarrow> ('a js + 'x) \<times> 'w) \<Rightarrow> ('w, 'a, 'x) action" where
  "invoke ev f s = (case f (world s) of (r, w') \<Rightarrow> (r, (log_event ev s)\<lparr>world := w'\<rparr>))"

definition driver_command :: "('w, 'a) driver \<Rightarrow> driver_command \<Rightarrow> ('w, 'a, unit) action" where
  "driver_command drv c = invoke (Command c) (command drv c)"

text \<open>A run of awaited driver commands; the first that throws ends it.\<close>

fun driver_commands :: "('w, 'a) driver \<Rightarrow> driver_command list \<Rightarrow> ('w, 'a, unit) action" where
  "driver_commands drv [] s = (Inr (), s)"
| "driver_commands drv (c # cs) s =
     (case driver_command drv c s of
        (Inl e, s') \<Rightarrow> (Inl e, s')
      | (Inr _, s') \<Rightarrow> driver_commands drv cs s')"

definition driver_gotoURL ::
  "('w, 'a) driver \<Rightarrow> string \<Rightarrow> goto_options \<Rightarrow> ('w, 'a, string) action" where
  "driver_gotoURL drv target opts =
     await_then (invoke (Query (GotoURL target opts)) (gotoURL drv target opts))
       (\<lambda>final s. (Inr final, log_event (Navigated target opts final) s))"

definition driver_endDevtoolsLog :: "('w, 'a) driver \<Rightarrow> ('w, 'a, devtools_entry list) action" where
  "driver_endDevtoolsLog drv =
     await_then (invoke (Query EndDevtoolsLog) (endDevtoolsLog drv))
       (\<lambda>entries s. (Inr entries, log_event (LogEnded entries) s))"

section \<open>The gather runner\<close>

text \<open>
  The static methods of \<^verbatim>\<open>GatherRunner\<close>, in the order of the source. Calls of the
  logger (\<^verbatim>\<open>log.time\<close>, \<^verbatim>\<open>log.timeEnd\<close>, \<^verbatim>\<open>log.error\<close>) have no effect on the
  run and are left out.
\<close>

definition loadBlank :: "('w, 'a) driver \<Rightarrow> string \<Rightarrow> ('w, 'a, unit) action" where
  "loadBlank drv target =
     await_then (driver_gotoURL drv target WaitForNavigated) (\<lambda>_. return ())"

definition loadPage ::
  "('w, 'a) driver \<Rightarrow> ('w, 'a) pass_context \<Rightarrow> ('w, 'a, ('w, 'a) pass_context) action" where
  "loadPage drv passContext =
     await_then
       (driver_gotoURL drv (ctx_url passContext)
          (WaitForLoad (recordTrace (passConfig passContext))))
       (\<lambda>final. return (passContext\<lparr>ctx_url := final\<rparr>))"

definition setupDriver ::
  "('w, 'a) driver \<Rightarrow> string \<Rightarrow> settings \<Rightarrow> ('w, 'a, unit) action" where
  "setupDriver drv requested stg =
     (let resetStorage = \<not> disableStorageReset stg
      in driver_commands drv
           ([AssertNoSameOriginServiceWorkerClients requested,
             BeginEmulation stg,
             EnableRuntimeEvents,
             EnableAsyncStacks,
             CacheNatives,
             RegisterPerformanceObserver,
             DismissJavaScriptDialogs]
            @ (if resetStorage then [ClearDataForOrigin requested] else [])))"

text \<open>
  \<^verbatim>\<open>disposeDriver\<close> catches what \<^verbatim>\<open>driver.disconnect()\<close> throws and only logs
  it. The \<^verbatim>\<open>catch\<close> block reads \<^verbatim>\<open>err.message\<close>, which itself throws a
  \<^verbatim>\<open>TypeError\<close> when \<^verbatim>\<open>err\<close> is \<^verbatim>\<open>undefined\<close> or \<^verbatim>\<open>null\<close>; that
  exception leaves \<^verbatim>\<open>disposeDriver\<close>.
\<close>

definition disposeDriver :: "('w, 'a) driver \<Rightarrow> ('w, 'a, unit) action" where
  "disposeDriver drv s =
     (case driver_command drv Disconnect s of
        (Inr _, s') \<Rightarrow> (Inr (), s')
      | (Inl err, s') \<Rightarrow>
          if err = Undefined \<or> err = Null then (Inl (Err ''TypeError''), s')
          else (Inr (), s'))"

definition setupPassNetwork ::
  "('w, 'a) driver \<Rightarrow> ('w, 'a) pass_context \<Rightarrow> ('w, 'a, unit) action" where
  "setupPassNetwork drv passContext =
     (let pc = passConfig passContext;
          blockedUrls =
            (case pass_blockedUrlPatterns pc of None \<Rightarrow> [] | Some ps \<Rightarrow> ps)
            @ (case blockedUrlPatterns (ctx_settings passContext) of None \<Rightarrow> [] | Some ps \<Rightarrow> ps)
      in driver_commands drv
           [SetThrottling (ctx_settings passContext) (useThrottling pc),
            BlockUrlPatterns blockedUrls,
            SetExtraHTTPHeaders (extraHeaders (ctx_settings passContext))])"

definition beginRecording ::
  "('w, 'a) driver \<Rightarrow> ('w, 'a) pass_context \<Rightarrow> ('w, 'a, unit) action" where
  "beginRecording drv passContext =
     driver_commands drv
       ([BeginDevtoolsLog]
        @ (if recordTrace (passConfig passContext)
           then [BeginTrace (ctx_settings passContext)] else []))"

definition endRecording ::
  "('w, 'a) env \<Rightarrow> ('w, 'a) driver \<Rightarrow> ('w, 'a) pass_context \<Rightarrow>
   ('w, 'a, 'a load_data) action" where
  "endRecording env drv passContext =
     await_then
       (if recordTrace (passConfig passContext)
        then await_then (invoke (Query EndTrace) (endTrace drv)) (\<lambda>t. return (Some t))
        else return None)
       (\<lambda>tr. await_then (driver_endDevtoolsLog drv)
          (\<lambda>entries. return \<lparr>networkRecords = recordsFromLogs env entries,
                              devtoolsLog = entries,
                              trace = tr\<rparr>))"

text \<open>What a hook is given of the pass context.\<close>

definition hook_view :: "('w, 'a) pass_context \<Rightarrow> 'a hook_context" where
  "hook_view passContext =
     \<lparr>hook_url = ctx_url passContext,
      hook_settings = ctx_settings passContext,
      hook_passName = passName (passConfig passContext),
      hook_options = ctx_options passContext,
      hook_baseArtifacts = baseArtifacts passContext\<rparr>"

definition push_warnings :: "string list \<Rightarrow> ('w, 'a) pass_context \<Rightarrow> ('w, 'a) pass_context" where
  "push_warnings ws passContext =
     passContext\<lparr>baseArtifacts := (baseArtifacts passContext)
        \<lparr>LighthouseRunWarnings := LighthouseRunWarnings (baseArtifacts passContext) @ ws\<rparr>\<rparr>"

text \<open>
  \<^verbatim>\<open>const artifactPromise = Promise.resolve().then(_ => hook(...));\<close> followed by
  \<^verbatim>\<open>await artifactPromise.catch(() => {})\<close>: the hook runs, and the settled promise
  is what is left, whether it resolved or rejected.
\<close>

definition call_hook ::
  "phase \<Rightarrow> string \<Rightarrow> ('w, 'a) hook \<Rightarrow> ('w, 'a) pass_context \<Rightarrow> 'w runner_state \<Rightarrow>
   ('a outcome \<times> ('w, 'a) pass_context) \<times> 'w runner_state" where
  "call_hook ph n h passContext s =
     (case h (world s) of
        ((artifactPromise, ws), w') \<Rightarrow>
          ((artifactPromise, push_warnings ws passContext),
           (log_event (HookCall ph n) s)\<lparr>world := w'\<rparr>))"

text \<open>
  The three phase loops, over the gatherers still to run. What a hook throws is caught,
  so none of them throws.
\<close>

fun beforePass_loop ::
  "('w, 'a) gatherer_defn list \<Rightarrow> ('w, 'a) pass_context \<Rightarrow> 'a gatherer_results \<Rightarrow>
   'w runner_state \<Rightarrow> (('w, 'a) pass_context \<times> 'a gatherer_results) \<times> 'w runner_state" where
  "beforePass_loop [] passContext gathererResults s = ((passContext, gathererResults), s)"
| "beforePass_loop (gathererDefn # rest) passContext gathererResults s =
     (let g = instance_of gathererDefn;
          passContext1 = passContext\<lparr>ctx_options := options gathererDefn\<rparr>
      in case call_hook BeforePassPhase (name g) (beforePass_hook g (hook_view passContext1))
                passContext1 s of
           ((artifactPromise, passContext2), s') \<Rightarrow>
             beforePass_loop rest passContext2
               (obj_set (name g) [artifactPromise] gathererResults) s')"

definition beforePass ::
  "('w, 'a) pass_context \<Rightarrow> 'a gatherer_results \<Rightarrow>
   ('w, 'a, ('w, 'a) pass_context \<times> 'a gatherer_results) action" where
  "beforePass passContext gathererResults s =
     (case beforePass_loop (gatherers (passConfig passContext)) passContext gathererResults s of
        (r, s') \<Rightarrow> (Inr r, s'))"

fun pass_loop ::
  "('w, 'a) gatherer_defn list \<Rightarrow> ('w, 'a) pass_context \<Rightarrow> 'a gatherer_results \<Rightarrow>
   'w runner_state \<Rightarrow> (('w, 'a) pass_context \<times> 'a gatherer_results) \<times> 'w runner_state" where
  "pass_loop [] passContext gathererResults s = ((passContext, gathererResults), s)"
| "pass_loop (gathererDefn # rest) passContext gathererResults s =
     (let g = instance_of gathererDefn;
          passContext1 = passContext\<lparr>ctx_options := options gathererDefn\<rparr>
      in case call_hook PassPhase (name g) (pass_hook g (hook_view passContext1))
                passContext1 s of
           ((artifactPromise, passContext2), s') \<Rightarrow>
             (let gathererResult = history_of gathererResults (name g)
              in pass_loop rest passContext2
                   (obj_set (name g) (gathererResult @ [artifactPromise]) gathererResults) s'))"

definition pass ::
  "('w, 'a) pass_context \<Rightarrow> 'a gatherer_results \<Rightarrow>
   ('w, 'a, ('w, 'a) pass_context \<times> 'a gatherer_results) action" where
  "pass passContext gathererResults s =
     (case pass_loop (gatherers (passConfig passContext)) passContext gathererResults s of
        (r, s') \<Rightarrow> (Inr r, s'))"

fun afterPass_loop ::
  "('w, 'a) gatherer_defn list \<Rightarrow> 'a load_data \<Rightarrow> ('w, 'a) pass_context \<Rightarrow>
   'a gatherer_results \<Rightarrow> 'w runner_state \<Rightarrow>
   (('w, 'a) pass_context \<times> 'a gatherer_results) \<times> 'w runner_state" where
  "afterPass_loop [] loadData passContext gathererResults s = ((passContext, gathererResults), s)"
| "afterPass_loop (gathererDefn # rest) loadData passContext gathererResults s =
     (let g = instance_of gathererDefn;
          passContext1 = passContext\<lparr>ctx_options := options gathererDefn\<rparr>
      in case call_hook AfterPassPhase (name g)
                (afterPass_hook g (hook_view passContext1) loadData) passContext1 s of
           ((artifactPromise, passContext2), s') \<Rightarrow>
             (let gathererResult = history_of gathererResults (name g)
              in afterPass_loop rest loadData passContext2
                   (obj_set (name g) (gathererResult @ [artifactPromise]) gathererResults) s'))"

definition afterPass ::
  "('w, 'a) pass_context \<Rightarrow> 'a load_data \<Rightarrow> 'a gatherer_results \<Rightarrow>
   ('w, 'a, ('w, 'a) pass_context \<times> 'a gatherer_results) action" where
  "afterPass passContext loadData gathererResults s =
     (case afterPass_loop (gatherers (passConfig passContext)) loadData passContext
             gathererResults s of
        (r, s') \<Rightarrow> (Inr r, s'))"

text \<open>
  \<^verbatim>\<open>fillWithPageLoadErrors\<close>: no hook is called; \<^verbatim>\<open>Promise.reject(pageLoadError)\<close>
  is pushed onto the history of every gatherer of the pass.
\<close>

fun fillWithPageLoadErrors_loop ::
  "('w, 'a) gatherer_defn list \<Rightarrow> lh_error \<Rightarrow> 'a gatherer_results \<Rightarrow> 'a gatherer_results" where
  "fillWithPageLoadErrors_loop [] pageLoadError gathererResults = gathererResults"
| "fillWithPageLoadErrors_loop (gathererDefn # rest) pageLoadError gathererResults =
     (let g = instance_of gathererDefn;
          artifactPromise = Rejected (LHErr pageLoadError);
          gathererResult = history_of gathererResults (name g)
      in fillWithPageLoadErrors_loop rest pageLoadError
           (obj_set (name g) (gathererResult @ [artifactPromise]) gathererResults))"

definition fillWithPageLoadErrors ::
  "('w, 'a) pass_context \<Rightarrow> lh_error \<Rightarrow> 'a gatherer_results \<Rightarrow> 'a gatherer_results" where
  "fillWithPageLoadErrors passContext pageLoadError gathererResults =
     fillWithPageLoadErrors_loop (gatherers (passConfig passContext)) pageLoadError
       gathererResults"

text \<open>
  \<^verbatim>\<open>await Promise.all(promises)\<close> on settled promises: the values in order, or the
  reason of the first rejected promise in the order of the array.
\<close>

fun promise_all :: "'a outcome list \<Rightarrow> 'a js + 'a js list" where
  "promise_all [] = Inr []"
| "promise_all (Resolved v # ps) =
     (case promise_all ps of Inl e \<Rightarrow> Inl e | Inr vs \<Rightarrow> Inr (v # vs))"
| "promise_all (Rejected e # ps) = Inl e"

text \<open>
  The body of the \<^verbatim>\<open>try\<close>/\<^verbatim>\<open>catch\<close> of \<^verbatim>\<open>collectArtifacts\<close>: the value assigned
  to \<^verbatim>\<open>gathererArtifacts[gathererName]\<close>. Reading index \<open>-1\<close> of an empty array
  gives \<^verbatim>\<open>undefined\<close>.
\<close>

definition phase_artifact :: "'a outcome list \<Rightarrow> 'a js" where
  "phase_artifact phaseResultsPromises =
     (case promise_all phaseResultsPromises of
        Inr phaseResults \<Rightarrow>
          (let definedResults = filter (\<lambda>element. element \<noteq> Undefined) phaseResults
           in if definedResults = [] then Undefined
              else definedResults ! (length definedResults - 1))
      | Inl err \<Rightarrow> err)"

text \<open>
  The names of the properties of \<^verbatim>\<open>Object.prototype\<close>, which every object made by
  \<^verbatim>\<open>{}\<close> inherits.
\<close>

definition object_prototype_names :: "string list" where
  "object_prototype_names =
     [''constructor'', ''__defineGetter__'', ''__defineSetter__'', ''hasOwnProperty'',
      ''__lookupGetter__'', ''__lookupSetter__'', ''isPrototypeOf'', ''propertyIsEnumerable'',
      ''toString'', ''valueOf'', ''__proto__'', ''toLocaleString'']"

text \<open>
  \<^verbatim>\<open>gathererArtifacts[gathererName]\<close> on the object made by \<^verbatim>\<open>{}\<close>: the value
  of its own property of that name; without one, the member of \<^verbatim>\<open>Object.prototype\<close>
  of that name, if there is one; \<^verbatim>\<open>undefined\<close> otherwise. The loop below assigns
  only to names for which this read gave \<^verbatim>\<open>undefined\<close>, none of them inherited, so
  every assignment makes an own property.
\<close>

definition artifact_of :: "(string \<times> 'a js) list \<Rightarrow> string \<Rightarrow> 'a js" where
  "artifact_of gathererArtifacts n =
     (case obj_get gathererArtifacts n of
        Some v \<Rightarrow> v
      | None \<Rightarrow> if n \<in> set object_prototype_names then ObjectPrototype n else Undefined)"

fun collectArtifacts_loop ::
  "'a gatherer_results \<Rightarrow> (string \<times> 'a js) list \<Rightarrow> 'a js + (string \<times> 'a js) list" where
  "collectArtifacts_loop [] gathererArtifacts = Inr gathererArtifacts"
| "collectArtifacts_loop ((gathererName, phaseResultsPromises) # rest) gathererArtifacts =
     (if artifact_of gathererArtifacts gathererName \<noteq> Undefined
      then collectArtifacts_loop rest gathererArtifacts
      else (let gathererArtifacts1 =
                  obj_set gathererName (phase_artifact phaseResultsPromises) gathererArtifacts
            in if artifact_of gathererArtifacts1 gathererName = Undefined
               then Inl (Err (gathererName @ '' failed to provide an artifact.''))
               else collectArtifacts_loop rest gathererArtifacts1))"

definition collectArtifacts ::
  "('w, 'a) env \<Rightarrow> 'a gatherer_results \<Rightarrow> 'a base_artifacts \<Rightarrow> ('w, 'a, 'a artifacts) action" where
  "collectArtifacts env gathererResults baseArtifacts0 s =
     (case collectArtifacts_loop gathererResults [] of
        Inl err \<Rightarrow> (Inl err, s)
      | Inr collected \<Rightarrow>
          (Inr \<lparr>base_part = baseArtifacts0
                   \<lparr>LighthouseRunWarnings := unique (LighthouseRunWarnings baseArtifacts0),
                    Timing := getTimeEntries env (world s)\<rparr>,
                 gatherer_part = collected\<rparr>, s))"

definition getBaseArtifacts ::
  "('w, 'a) env \<Rightarrow> ('w, 'a) driver \<Rightarrow> string \<Rightarrow> settings \<Rightarrow>
   ('w, 'a, 'a base_artifacts) action" where
  "getBaseArtifacts env drv requested stg =
     await_then (invoke (Query GetBrowserVersion) (getBrowserVersion drv))
       (\<lambda>hostUserAgent s.
          (let IsMobileHost = string_includes hostUserAgent ''Android'' \<or>
                              string_includes hostUserAgent ''Mobile'';
               testedAsMobileDevice =
                 (emulatedFormFactor stg = Some ''mobile'' \<or>
                  (emulatedFormFactor stg \<noteq> Some ''desktop'' \<and> IsMobileHost))
           in (Inr \<lparr>fetchTime = currentTime env (world s),
                    LighthouseRunWarnings = [],
                    TestedAsMobileDevice = testedAsMobileDevice,
                    HostUserAgent = hostUserAgent,
                    NetworkUserAgent = [],
                    BenchmarkIndex = 0,
                    WebAppManifest = None,
                    Stacks = [],
                    traces = [],
                    devtoolsLogs = [],
                    base_settings = stg,
                    URL = \<lparr>requestedUrl = requested, finalUrl = []\<rparr>,
                    Timing = []\<rparr>, s)))"

definition getWebAppManifest ::
  "('w, 'a) env \<Rightarrow> ('w, 'a) driver \<Rightarrow> ('w, 'a) pass_context \<Rightarrow> ('w, 'a, 'a option) action" where
  "getWebAppManifest env drv passContext =
     await_then (invoke (Query GetAppManifest) (getAppManifest drv))
       (\<lambda>response. return
          (case response of
             None \<Rightarrow> None
           | Some (manifest_data, manifest_url) \<Rightarrow>
               Some (manifestParser env manifest_data manifest_url (ctx_url passContext))))"

definition isPerfPass :: "('w, 'a) pass_context \<Rightarrow> bool" where
  "isPerfPass passContext =
     (\<not> disableStorageReset (ctx_settings passContext) \<and>
      recordTrace (passConfig passContext) \<and> useThrottling (passConfig passContext))"

text \<open>
  \<^verbatim>\<open>runPass\<close> up to the check for load errors: network setup, the
  \<^verbatim>\<open>beforePass\<close> hooks, recording, navigation, the \<^verbatim>\<open>pass\<close> hooks, the end of
  recording, and the devtools log and trace saved under the name of the pass.
\<close>

definition runPass_until_check ::
  "('w, 'a) env \<Rightarrow> ('w, 'a) driver \<Rightarrow> ('w, 'a) pass_context \<Rightarrow>
   ('w, 'a, ('w, 'a) pass_context \<times> 'a gatherer_results \<times> 'a load_data) action" where
  "runPass_until_check env drv passContext =
     await_then (setupPassNetwork drv passContext) (\<lambda>_.
     await_then (if isPerfPass passContext then driver_command drv CleanBrowserCaches
                 else return ()) (\<lambda>_.
     await_then (beforePass passContext []) (\<lambda>(passContext1, gathererResults1).
     await_then (beginRecording drv passContext1) (\<lambda>_.
     await_then (loadPage drv passContext1) (\<lambda>passContext2.
     await_then (pass passContext2 gathererResults1) (\<lambda>(passContext3, gathererResults2).
     await_then (endRecording env drv passContext3) (\<lambda>loadData.
     await_then (driver_command drv (SetThrottling (ctx_settings passContext3) False)) (\<lambda>_.
       (let pc = passConfig passContext3;
            bA = baseArtifacts passContext3;
            bA1 = bA\<lparr>devtoolsLogs := obj_set (passName pc) (devtoolsLog loadData) (devtoolsLogs bA)\<rparr>;
            bA2 = (case trace loadData of
                     Some t \<Rightarrow> bA1\<lparr>traces := obj_set (passName pc) t (traces bA1)\<rparr>
                   | None \<Rightarrow> bA1)
        in return (passContext3\<lparr>baseArtifacts := bA2\<rparr>, gathererResults2, loadData))))))))))"

text \<open>
  \<^verbatim>\<open>runPass\<close>: the check for load errors and the terminal branch. The pass context
  is mutated by the source and returned here beside the results.
\<close>

definition runPass ::
  "('w, 'a) env \<Rightarrow> ('w, 'a) driver \<Rightarrow> ('w, 'a) pass_context \<Rightarrow>
   ('w, 'a, 'a gatherer_results \<times> ('w, 'a) pass_context) action" where
  "runPass env drv passContext =
     await_then (runPass_until_check env drv passContext)
       (\<lambda>(passContext1, gathererResults, loadData) s.
          (let pageLoadError0 =
                 getPageLoadError (equalWithExcludedFragments env) (hasErrorStatusCode env)
                   (ctx_url passContext1) (networkRecords loadData);
               pageLoadError = (if \<not> online drv (world s) then None else pageLoadError0)
           in case pageLoadError of
                None \<Rightarrow>
                  await_then (afterPass passContext1 loadData gathererResults)
                    (\<lambda>(passContext2, gathererResults1). return (gathererResults1, passContext2)) s
              | Some err \<Rightarrow>
                  (let passContext2 = push_warnings [friendlyMessage env err] passContext1
                   in (Inr (fillWithPageLoadErrors passContext2 err gathererResults,
                            passContext2), s))))"

text \<open>\<^verbatim>\<open>!!entry.params.request.headers['User-Agent']\<close>\<close>

definition has_user_agent :: "devtools_entry \<Rightarrow> bool" where
  "has_user_agent entry =
     (case obj_get (headers entry) ''User-Agent'' of None \<Rightarrow> False | Some v \<Rightarrow> v \<noteq> [])"

definition user_agent_of :: "devtools_entry \<Rightarrow> string" where
  "user_agent_of entry =
     (case obj_get (headers entry) ''User-Agent'' of None \<Rightarrow> [] | Some v \<Rightarrow> v)"

text \<open>
  The body of the loop over the passes in \<^verbatim>\<open>run\<close>. Reading the devtools log of the
  pass cannot fail, since \<^verbatim>\<open>runPass\<close> has just stored it; were it missing, the call
  of \<^verbatim>\<open>find\<close> on \<^verbatim>\<open>undefined\<close> would throw.
\<close>

definition run_loop_body ::
  "('w, 'a) env \<Rightarrow> ('w, 'a) driver \<Rightarrow> string \<Rightarrow> settings \<Rightarrow> ('w, 'a) pass_config \<Rightarrow> bool \<Rightarrow>
   'a gatherer_results \<Rightarrow> 'a base_artifacts \<Rightarrow>
   ('w, 'a, 'a gatherer_results \<times> 'a base_artifacts) action" where
  "run_loop_body env drv requested stg pc isFirstPass gathererResults bA =
     (let passContext = \<lparr>ctx_url = requested, ctx_settings = stg, passConfig = pc,
                          baseArtifacts = bA, ctx_options = None\<rparr>
      in
      await_then (if \<not> isFirstPass
                  then loadBlank drv (case blankPage pc of None \<Rightarrow> defaultBlankPage env
                                      | Some b \<Rightarrow> b)
                  else return ()) (\<lambda>_.
      await_then (runPass env drv passContext) (\<lambda>(passResults, passContext1).
        (let gathererResults1 = object_assign gathererResults passResults;
             bA1 = baseArtifacts passContext1
         in if isFirstPass then
              (let bA2 = bA1\<lparr>URL := (URL bA1)\<lparr>finalUrl := ctx_url passContext1\<rparr>\<rparr>
               in
               await_then (getWebAppManifest env drv passContext1) (\<lambda>manifest.
               await_then (invoke (Query StackCollector) (stacksGatherer env)) (\<lambda>stacks.
                 (let bA3 = bA2\<lparr>WebAppManifest := manifest, Stacks := stacks\<rparr>
                  in case obj_get (devtoolsLogs bA3) (passName pc) of
                       None \<Rightarrow> throw (Err ''TypeError'')
                     | Some entries \<Rightarrow>
                         (let userAgentEntry =
                                array_find
                                  (\<lambda>entry. entry_method entry = ''Network.requestWillBeSent'' \<and>
                                            has_user_agent entry) entries
                          in case userAgentEntry of
                               Some entry \<Rightarrow>
                                 return (gathererResults1,
                                         bA3\<lparr>NetworkUserAgent := user_agent_of entry\<rparr>)
                             | None \<Rightarrow> return (gathererResults1, bA3))))))
            else return (gathererResults1, bA1)))))"

text \<open>
  The loop over the passes; \<^verbatim>\<open>isFirstPass\<close> is false after the first pass.
\<close>

fun run_passes ::
  "('w, 'a) env \<Rightarrow> ('w, 'a) driver \<Rightarrow> string \<Rightarrow> settings \<Rightarrow> ('w, 'a) pass_config list \<Rightarrow>
   bool \<Rightarrow> 'a gatherer_results \<Rightarrow> 'a base_artifacts \<Rightarrow>
   ('w, 'a, 'a gatherer_results \<times> 'a base_artifacts) action" where
  "run_passes env drv requested stg [] isFirstPass gathererResults bA s =
     (Inr (gathererResults, bA), s)"
| "run_passes env drv requested stg (pc # rest) isFirstPass gathererResults bA s =
     (case run_loop_body env drv requested stg pc isFirstPass gathererResults bA s of
        (Inl e, s') \<Rightarrow> (Inl e, s')
      | (Inr (gathererResults1, bA1), s') \<Rightarrow>
          run_passes env drv requested stg rest False gathererResults1 bA1 s')"

text \<open>
  The \<^verbatim>\<open>try\<close> block of \<^verbatim>\<open>run\<close> up to its \<^verbatim>\<open>return\<close> statement. The options
  object of \<^verbatim>\<open>run\<close> is given as its three fields.
\<close>

definition run_try ::
  "('w, 'a) env \<Rightarrow> ('w, 'a) pass_config list \<Rightarrow> ('w, 'a) driver \<Rightarrow> string \<Rightarrow> settings \<Rightarrow>
   ('w, 'a, 'a gatherer_results \<times> 'a base_artifacts) action" where
  "run_try env passes drv requested stg =
     await_then (driver_command drv Connect) (\<lambda>_.
     await_then (getBaseArtifacts env drv requested stg) (\<lambda>bA.
     await_then (loadBlank drv (defaultBlankPage env)) (\<lambda>_.
     await_then (invoke (Query GetBenchmarkIndex) (getBenchmarkIndex drv)) (\<lambda>benchmarkIndex.
     await_then (setupDriver drv requested stg) (\<lambda>_.
     await_then (run_passes env drv requested stg passes True []
                   (bA\<lparr>BenchmarkIndex := benchmarkIndex\<rparr>)) (\<lambda>(gathererResults, bA1).
     await_then (if \<not> disableStorageReset stg
                 then driver_command drv (ClearDataForOrigin requested)
                 else return ()) (\<lambda>_.
     await_then (disposeDriver drv) (\<lambda>_.
       return (gathererResults, bA1)))))))))"

text \<open>
  \<^verbatim>\<open>run\<close>. An exception of the \<^verbatim>\<open>try\<close> block is caught: the driver is disposed
  and the exception thrown again. The promise of \<^verbatim>\<open>collectArtifacts\<close> is returned
  without \<^verbatim>\<open>await\<close>, so a rejection of it passes to the caller without entering
  the \<^verbatim>\<open>catch\<close> block. In the \<^verbatim>\<open>catch\<close> block \<^verbatim>\<open>disposeDriver\<close> is called
  without \<^verbatim>\<open>await\<close>; its call of \<^verbatim>\<open>driver.disconnect()\<close> is made before the
  exception is thrown again, and its effect on the world is taken here as complete. What
  that call of \<^verbatim>\<open>disposeDriver\<close> returns or throws is not looked at.
\<close>

definition run ::
  "('w, 'a) env \<Rightarrow> ('w, 'a) pass_config list \<Rightarrow> ('w, 'a) driver \<Rightarrow> string \<Rightarrow> settings \<Rightarrow>
   ('w, 'a, 'a artifacts) action" where
  "run env passes drv requested stg s =
     (case run_try env passes drv requested stg s of
        (Inl err, s') \<Rightarrow> (Inl err, snd (disposeDriver drv s'))
      | (Inr (gathererResults, bA), s') \<Rightarrow> collectArtifacts env gathererResults bA s')"

section \<open>Example inputs\<close>

text \<open>
  Concrete collaborators and inputs, on which the theorems below are instantiated.
  URLs are compared up to the first \<open>#\<close>, and a status code from 400 on is an error.
\<close>

definition strip_fragment :: "string \<Rightarrow> string" where
  "strip_fragment u = takeWhile (\<lambda>c. c \<noteq> CHR ''#'') u"

definition ex_equal :: "string \<Rightarrow> string \<Rightarrow> bool" where
  "ex_equal a b = (strip_fragment a = strip_fragment b)"

definition ex_hasErrorStatusCode :: "network_request \<Rightarrow> bool" where
  "ex_hasErrorStatusCode r = (400 \<le> statusCode r)"

definition ex_record :: "string \<Rightarrow> bool \<Rightarrow> string \<Rightarrow> int \<Rightarrow> network_request" where
  "ex_record u f d c = \<lparr>url = u, failed = f, localizedFailDescription = d, statusCode = c\<rparr>"

text \<open>
  A session whose world counts the hooks that have run. The driver accepts every command,
  reports an Android host, redirects \<open>http://a.test/\<close> to \<open>http://a.test/b\<close> and
  ends every devtools log with the same two entries, none of which has a User-Agent
  header.
\<close>

definition ex_log :: "devtools_entry list" where
  "ex_log =
     [\<lparr>entry_method = ''Network.requestWillBeSent'', headers = [(''Accept'', ''text/html'')]\<rparr>,
      \<lparr>entry_method = ''Network.responseReceived'', headers = []\<rparr>]"

definition ex_driver :: "(nat, nat) driver" where
  "ex_driver =
     \<lparr>command = (\<lambda>c w. (Inr (), w)),
      getBrowserVersion = (\<lambda>w. (Inr ''Mozilla/5.0 (Linux; Android 7.0) Mobile Safari'', w)),
      getBenchmarkIndex = (\<lambda>w. (Inr 1000, w)),
      gotoURL = (\<lambda>target opts w.
                   (Inr (if target = ''http://a.test/'' then ''http://a.test/b'' else target), w)),
      endTrace = (\<lambda>w. (Inr 0, w)),
      endDevtoolsLog = (\<lambda>w. (Inr ex_log, w)),
      getAppManifest = (\<lambda>w. (Inr None, w)),
      online = (\<lambda>w. True)\<rparr>"

text \<open>The same session, except that connecting fails.\<close>

definition ex_driver_unreachable :: "(nat, nat) driver" where
  "ex_driver_unreachable = ex_driver\<lparr>command :=
     (\<lambda>c w. if c = Connect then (Inl (Err ''connection refused''), w) else (Inr (), w))\<rparr>"

text \<open>
  The same session, except that the navigation of a page load fails, and except that
  disconnecting rejects with \<^verbatim>\<open>undefined\<close>.
\<close>

definition ex_driver_no_navigation :: "(nat, nat) driver" where
  "ex_driver_no_navigation = ex_driver\<lparr>gotoURL :=
     (\<lambda>target opts w. if opts = WaitForNavigated then (Inr target, w)
                       else (Inl (Err ''navigation failed''), w))\<rparr>"

definition ex_driver_bad_close :: "(nat, nat) driver" where
  "ex_driver_bad_close = ex_driver\<lparr>command :=
     (\<lambda>c w. if c = Disconnect then (Inl Undefined, w) else (Inr (), w))\<rparr>"

text \<open>
  Network records are derived from the request entries of a log, each taken as a
  successful request of \<open>http://a.test/b\<close>; with \<open>ex_env_no_records\<close> no record is
  derived at all, so that every page load is classified as a failure.
\<close>

definition ex_recordsFromLogs :: "devtools_entry list \<Rightarrow> network_request list" where
  "ex_recordsFromLogs entries =
     map (\<lambda>e. ex_record ''http://a.test/b'' False [] 200)
       (filter (\<lambda>e. entry_method e = ''Network.requestWillBeSent'') entries)"

definition ex_env :: "(nat, nat) env" where
  "ex_env =
     \<lparr>equalWithExcludedFragments = ex_equal,
      hasErrorStatusCode = ex_hasErrorStatusCode,
      friendlyMessage = (\<lambda>e. ''The page did not load''),
      recordsFromLogs = ex_recordsFromLogs,
      manifestParser = (\<lambda>manifest_data manifest_url document_url. 0),
      stacksGatherer = (\<lambda>w. (Inr [], w)),
      getTimeEntries = (\<lambda>w. []),
      currentTime = (\<lambda>w. ''2019-01-01T00:00:00.000Z''),
      defaultBlankPage = ''about:blank''\<rparr>"

definition ex_env_no_records :: "(nat, nat) env" where
  "ex_env_no_records = ex_env\<lparr>recordsFromLogs := (\<lambda>entries. [])\<rparr>"

text \<open>
  Gatherer \<open>A\<close> rejects in \<^verbatim>\<open>beforePass\<close>, returns nothing in \<^verbatim>\<open>pass\<close> and
  returns a value, with a warning, in \<^verbatim>\<open>afterPass\<close>. Gatherer \<open>B\<close> returns values
  in \<^verbatim>\<open>beforePass\<close> and \<^verbatim>\<open>pass\<close> and nothing in \<^verbatim>\<open>afterPass\<close>.
\<close>

definition ex_gatherer_A :: "(nat, nat) gatherer" where
  "ex_gatherer_A =
     \<lparr>name = ''A'',
      beforePass_hook = (\<lambda>c w. ((Rejected (Val 1), []), Suc w)),
      pass_hook = (\<lambda>c w. ((Resolved Undefined, []), Suc w)),
      afterPass_hook = (\<lambda>c ld w. ((Resolved (Val 7), [''slow page'']), Suc w))\<rparr>"

definition ex_gatherer_B :: "(nat, nat) gatherer" where
  "ex_gatherer_B =
     \<lparr>name = ''B'',
      beforePass_hook = (\<lambda>c w. ((Resolved (Val 2), []), Suc w)),
      pass_hook = (\<lambda>c w. ((Resolved (Val 3), []), Suc w)),
      afterPass_hook = (\<lambda>c ld w. ((Resolved Undefined, []), Suc w))\<rparr>"

definition ex_gatherers :: "(nat, nat) gatherer_defn list" where
  "ex_gatherers =
     [\<lparr>instance_of = ex_gatherer_A, options = None\<rparr>,
      \<lparr>instance_of = ex_gatherer_B, options = None\<rparr>]"

definition ex_pass :: "(nat, nat) pass_config" where
  "ex_pass =
     \<lparr>passName = ''defaultPass'', gatherers = ex_gatherers, recordTrace = True,
      useThrottling = True, pass_blockedUrlPatterns = None, blankPage = None\<rparr>"

definition ex_settings :: settings where
  "ex_settings =
     \<lparr>emulatedFormFactor = Some ''desktop'', disableStorageReset = False,
      blockedUrlPatterns = None, extraHeaders = None\<rparr>"

definition ex_state :: "nat runner_state" where
  "ex_state = \<lparr>world = 0, events = []\<rparr>"

text \<open>Base artifacts as they are after \<^verbatim>\<open>getBaseArtifacts\<close>.\<close>

definition ex_baseArtifacts :: "nat base_artifacts" where
  "ex_baseArtifacts =
     \<lparr>fetchTime = ''2019-01-01T00:00:00.000Z'', LighthouseRunWarnings = [],
      TestedAsMobileDevice = False, HostUserAgent = ''Mozilla/5.0'', NetworkUserAgent = [],
      BenchmarkIndex = 0, WebAppManifest = None, Stacks = [], traces = [], devtoolsLogs = [],
      base_settings = ex_settings,
      URL = \<lparr>requestedUrl = ''http://a.test/'', finalUrl = []\<rparr>, Timing = []\<rparr>"

section \<open>Auxiliary notions for the statements\<close>

text \<open>
  What reading a bundle under a gatherer name gives (a name that is not a key of the base
  artifacts).
\<close>

definition bundle_artifact :: "string \<Rightarrow> 'a artifacts \<Rightarrow> 'a js" where
  "bundle_artifact n arts = artifact_of (gatherer_part arts) n"

text \<open>An action only ever adds to the record of events.\<close>

definition appends_events :: "('w runner_state \<Rightarrow> 'r \<times> 'w runner_state) \<Rightarrow> bool" where
  "appends_events m = (\<forall>s. \<exists>evs. events (snd (m s)) = events s @ evs)"

text \<open>
  A results object on which \<^verbatim>\<open>gathererResults[name] || []\<close> gives an array: the name
  has a history of its own there, or is not inherited from \<^verbatim>\<open>Object.prototype\<close> (so
  that the read gives \<^verbatim>\<open>undefined\<close> and the history is empty).
\<close>

definition history_readable :: "'a gatherer_results \<Rightarrow> string \<Rightarrow> bool" where
  "history_readable gathererResults n =
     (obj_get gathererResults n \<noteq> None \<or> n \<notin> set object_prototype_names)"

text \<open>
  The names of the gatherers of a pass and the hook calls of a phase, in configured order;
  the events that are hook calls; the events that record what a page load returned and
  what the devtools log held; and two pass contexts that differ at most in the options
  of the current gatherer and in warnings added.
\<close>

definition gatherer_names :: "('w, 'a) gatherer_defn list \<Rightarrow> string list" where
  "gatherer_names gs = map (\<lambda>gd. name (instance_of gd)) gs"

definition hook_calls :: "phase \<Rightarrow> ('w, 'a) gatherer_defn list \<Rightarrow> event list" where
  "hook_calls ph gs = map (\<lambda>gd. HookCall ph (name (instance_of gd))) gs"

fun is_hook_call :: "event \<Rightarrow> bool" where
  "is_hook_call (HookCall ph n) = True"
| "is_hook_call ev = False"

fun is_observation :: "event \<Rightarrow> bool" where
  "is_observation (Navigated target (WaitForLoad b) final) = True"
| "is_observation (LogEnded entries) = True"
| "is_observation ev = False"

definition same_but_warnings :: "('w, 'a) pass_context \<Rightarrow> ('w, 'a) pass_context \<Rightarrow> bool" where
  "same_but_warnings c c' =
     (ctx_url c' = ctx_url c \<and> ctx_settings c' = ctx_settings c \<and> passConfig c' = passConfig c \<and>
      (\<exists>ws. baseArtifacts c' =
         (baseArtifacts c)\<lparr>LighthouseRunWarnings := LighthouseRunWarnings (baseArtifacts c) @ ws\<rparr>))"

text \<open>The pass context of the first pass of the example run.\<close>

definition ex_context :: "(nat, nat) pass_context" where
  "ex_context =
     \<lparr>ctx_url = ''http://a.test/'', ctx_settings = ex_settings, passConfig = ex_pass,
      baseArtifacts = ex_baseArtifacts, ctx_options = None\<rparr>"

text \<open>
  The network user agent \<^verbatim>\<open>run\<close> takes from a devtools log: the User-Agent header
  of the first request entry that has one, or the given default.
\<close>

definition first_user_agent :: "devtools_entry list \<Rightarrow> string \<Rightarrow> string" where
  "first_user_agent entries dflt =
     (case array_find (\<lambda>entry. entry_method entry = ''Network.requestWillBeSent'' \<and>
                                 has_user_agent entry) entries of
        Some entry \<Rightarrow> user_agent_of entry
      | None \<Rightarrow> dflt)"

section \<open>Facts about strings\<close>

lemma startsWith_iff: "startsWith s p \<longleftrightarrow> (\<exists>rest. s = p @ rest)"
  by (induction s p rule: startsWith.induct) auto

lemma includes_iff: "string_includes s sub \<longleftrightarrow> (\<exists>pre post. s = pre @ sub @ post)"
proof (induction s)
  case Nil
  show ?case by (auto simp: startsWith_iff)
next
  case (Cons c cs)
  show ?case
  proof
    assume "string_includes (c # cs) sub"
    then consider "startsWith (c # cs) sub" | "string_includes cs sub" by auto
    then show "\<exists>pre post. c # cs = pre @ sub @ post"
    proof cases
      case 1
      then obtain rest where "c # cs = sub @ rest" by (auto simp: startsWith_iff)
      then have "c # cs = [] @ sub @ rest" by simp
      then show ?thesis by blast
    next
      case 2
      then obtain pre post where "cs = pre @ sub @ post" using Cons.IH by blast
      then have "c # cs = (c # pre) @ sub @ post" by simp
      then show ?thesis by blast
    qed
  next
    assume "\<exists>pre post. c # cs = pre @ sub @ post"
    then obtain pre post where eq: "c # cs = pre @ sub @ post" by blast
    show "string_includes (c # cs) sub"
    proof (cases pre)
      case Nil
      with eq have "startsWith (c # cs) sub" by (auto simp: startsWith_iff)
      then show ?thesis by simp
    next
      case (Cons d pre')
      with eq have "cs = pre' @ sub @ post" by simp
      then have "string_includes cs sub" using Cons.IH by blast
      then show ?thesis by simp
    qed
  qed
qed

lemma array_find_None: "array_find P xs = None \<longleftrightarrow> (\<forall>x \<in> set xs. \<not> P x)"
  by (induction xs) auto

lemma array_find_first:
  "(\<forall>q \<in> set pre. \<not> P q) \<Longrightarrow> P r \<Longrightarrow> array_find P (pre @ r # post) = Some r"
  by (induction pre) auto

section \<open>Decimal rendering\<close>

lemma string_of_nat_digits: "list_all is_digit (string_of_nat n)"
proof (induction n rule: string_of_nat.induct)
  case (1 n)
  show ?case
  proof (cases "n < 10")
    case True
    then show ?thesis by (subst string_of_nat.simps) (simp add: is_digit_def)
  next
    case False
    have "n mod 10 < 10" by simp
    then have "is_digit (char_of (48 + n mod 10))" by (simp add: is_digit_def)
    with False 1 show ?thesis by (subst string_of_nat.simps) simp
  qed
qed

lemma decimal_val_snoc: "decimal_val (s @ [c]) = 10 * decimal_val s + digit_val c"
  by (simp add: decimal_val_def)

lemma decimal_val_string_of_nat: "decimal_val (string_of_nat n) = n"
proof (induction n rule: string_of_nat.induct)
  case (1 n)
  show ?case
  proof (cases "n < 10")
    case True
    then show ?thesis
      by (subst string_of_nat.simps) (simp add: decimal_val_def digit_val_def)
  next
    case False
    have "n mod 10 < 10" by simp
    then have "digit_val (char_of (48 + n mod 10)) = n mod 10" by (simp add: digit_val_def)
    with False 1 show ?thesis
      by (subst string_of_nat.simps) (simp add: decimal_val_snoc)
  qed
qed

section \<open>The page-load classifier\<close>

text \<open>
  C1. \<^verbatim>\<open>getPageLoadError\<close> is a function of the target URL and the ordered
  network records alone. When no record's URL equals the target (fragments excluded) the
  result is \<open>NO_DOCUMENT_REQUEST\<close>. Otherwise the first matching record decides: if
  it is marked failed, the result is \<open>DNS_FAILURE\<close> when its reason is
  \<open>net::ERR_NAME_NOT_RESOLVED\<close> or \<open>net::ERR_NAME_RESOLUTION_FAILED\<close> or begins
  with \<open>net::ERR_DNS_\<close>, and \<open>FAILED_DOCUMENT_REQUEST\<close> with the raw reason
  otherwise; if it is not failed but has an error status code, the result is
  \<open>ERRORED_DOCUMENT_REQUEST\<close> with the status code as decimal text; otherwise there
  is no failure. The decimal text of a status code \<open>n\<close> consists of digits and reads
  back as \<open>n\<close>.
\<close>

theorem getPageLoadError_classification:
  "((\<forall>r \<in> set records. \<not> eq (url r) target) \<longrightarrow>
      getPageLoadError eq hasErr target records = Some (LHError NO_DOCUMENT_REQUEST []))
   \<and> ((\<forall>q \<in> set pre. \<not> eq (url q) target) \<and> eq (url r) target \<longrightarrow>
      getPageLoadError eq hasErr target (pre @ r # post) =
        (if failed r then
           (if localizedFailDescription r = ''net::ERR_NAME_NOT_RESOLVED'' \<or>
               localizedFailDescription r = ''net::ERR_NAME_RESOLUTION_FAILED'' \<or>
               (\<exists>rest. localizedFailDescription r = ''net::ERR_DNS_'' @ rest)
            then Some (LHError DNS_FAILURE [])
            else Some (LHError FAILED_DOCUMENT_REQUEST
                         [(''errorDetails'', localizedFailDescription r)]))
         else if hasErr r then
           Some (LHError ERRORED_DOCUMENT_REQUEST
                   [(''statusCode'', string_of_int (statusCode r))])
         else None))
   \<and> decimal_val (string_of_int (int n)) = n \<and> list_all is_digit (string_of_int (int n))"
proof (intro conjI impI)
  assume "\<forall>r \<in> set records. \<not> eq (url r) target"
  then have "array_find (\<lambda>record. eq (url record) target) records = None"
    by (simp add: array_find_None)
  then show "getPageLoadError eq hasErr target records = Some (LHError NO_DOCUMENT_REQUEST [])"
    by (simp add: getPageLoadError_def)
next
  assume "(\<forall>q \<in> set pre. \<not> eq (url q) target) \<and> eq (url r) target"
  then have "array_find (\<lambda>record. eq (url record) target) (pre @ r # post) = Some r"
    by (simp add: array_find_first)
  then show "getPageLoadError eq hasErr target (pre @ r # post) =
        (if failed r then
           (if localizedFailDescription r = ''net::ERR_NAME_NOT_RESOLVED'' \<or>
               localizedFailDescription r = ''net::ERR_NAME_RESOLUTION_FAILED'' \<or>
               (\<exists>rest. localizedFailDescription r = ''net::ERR_DNS_'' @ rest)
            then Some (LHError DNS_FAILURE [])
            else Some (LHError FAILED_DOCUMENT_REQUEST
                         [(''errorDetails'', localizedFailDescription r)]))
         else if hasErr r then
           Some (LHError ERRORED_DOCUMENT_REQUEST
                   [(''statusCode'', string_of_int (statusCode r))])
         else None)"
    by (simp add: getPageLoadError_def Let_def startsWith_iff)
next
  show "decimal_val (string_of_int (int n)) = n"
    by (simp add: string_of_int_def decimal_val_string_of_nat)
next
  show "list_all is_digit (string_of_int (int n))"
    by (simp add: string_of_int_def string_of_nat_digits)
qed

theorem getPageLoadError_classification_witness:
  "\<not> ex_equal (url (ex_record ''http://b.test/'' False [] 200)) ''http://a.test/''
   \<and> getPageLoadError ex_equal ex_hasErrorStatusCode ''http://a.test/''
        [ex_record ''http://b.test/'' False [] 200] = Some (LHError NO_DOCUMENT_REQUEST [])
   \<and> ex_equal (url (ex_record ''http://a.test/#x'' True ''net::ERR_DNS_TIMED_OUT'' 0)) ''http://a.test/''
   \<and> getPageLoadError ex_equal ex_hasErrorStatusCode ''http://a.test/''
        ([ex_record ''http://b.test/'' False [] 200]
         @ ex_record ''http://a.test/#x'' True ''net::ERR_DNS_TIMED_OUT'' 0 # [])
       = Some (LHError DNS_FAILURE [])
   \<and> getPageLoadError ex_equal ex_hasErrorStatusCode ''http://a.test/''
        ([ex_record ''http://b.test/'' False [] 200]
         @ ex_record ''http://a.test/#x'' True ''net::ERR_CONNECTION_REFUSED'' 0 # [])
       = Some (LHError FAILED_DOCUMENT_REQUEST [(''errorDetails'', ''net::ERR_CONNECTION_REFUSED'')])
   \<and> getPageLoadError ex_equal ex_hasErrorStatusCode ''http://a.test/''
        ([ex_record ''http://b.test/'' False [] 200]
         @ ex_record ''http://a.test/#x'' False [] 404 # [])
       = Some (LHError ERRORED_DOCUMENT_REQUEST [(''statusCode'', ''404'')])
   \<and> getPageLoadError ex_equal ex_hasErrorStatusCode ''http://a.test/''
        ([ex_record ''http://b.test/'' False [] 200]
         @ ex_record ''http://a.test/#x'' False [] 200 # [])
       = None"
proof -
  have h1: "\<forall>r \<in> set [ex_record ''http://b.test/'' False [] 200]. \<not> ex_equal (url r) ''http://a.test/''"
    by (simp add: ex_record_def ex_equal_def strip_fragment_def)
  have h2: "\<And>f d c. ex_equal (url (ex_record ''http://a.test/#x'' f d c)) ''http://a.test/''"
    by (simp add: ex_record_def ex_equal_def strip_fragment_def)
  have num: "string_of_int 404 = ''404''"
    by code_simp
  note T = getPageLoadError_classification [where eq = ex_equal and hasErr = ex_hasErrorStatusCode
      and target = "''http://a.test/''" and pre = "[ex_record ''http://b.test/'' False [] 200]"
      and post = "[]" and n = 0]
  show ?thesis
    using h1 h2 num
      T [where records = "[ex_record ''http://b.test/'' False [] 200]"
           and r = "ex_record ''http://a.test/#x'' True ''net::ERR_DNS_TIMED_OUT'' 0"]
      T [where records = "[]"
           and r = "ex_record ''http://a.test/#x'' True ''net::ERR_CONNECTION_REFUSED'' 0"]
      T [where records = "[]"
           and r = "ex_record ''http://a.test/#x'' False [] 404"]
      T [where records = "[]"
           and r = "ex_record ''http://a.test/#x'' False [] 200"]
    by (simp add: ex_record_def ex_hasErrorStatusCode_def)
qed

section \<open>Sequencing and calls\<close>

lemma await_then_InrE:
  assumes "await_then m f s = (Inr y, s')"
  obtains x s1 where "m s = (Inr x, s1)" and "f x s1 = (Inr y, s')"
  using assms by (auto simp: await_then_def split: prod.splits sum.splits)

lemma invoke_result:
  "invoke ev f s = (r, s') \<Longrightarrow> f (world s) = (r, world s') \<and> events s' = events s @ [ev]"
  by (auto simp: invoke_def log_event_def split: prod.splits)

lemmas ex_defs = ex_env_def ex_driver_def ex_pass_def ex_settings_def ex_state_def ex_gatherers_def
  ex_gatherer_A_def ex_gatherer_B_def ex_log_def ex_recordsFromLogs_def ex_record_def
  ex_equal_def ex_hasErrorStatusCode_def strip_fragment_def

section \<open>The mobile-device flag\<close>

text \<open>
  C7. In the base artifacts built by \<^verbatim>\<open>getBaseArtifacts\<close>, the host user agent is
  the string the driver reported, and \<open>TestedAsMobileDevice\<close> holds exactly when
  \<open>emulatedFormFactor\<close> is \<open>mobile\<close>, or it is neither \<open>mobile\<close> nor
  \<open>desktop\<close> and the host user agent contains \<open>Android\<close> or \<open>Mobile\<close>. In
  particular a \<open>desktop\<close> setting gives false whatever the host user agent is.
\<close>

theorem testedAsMobileDevice_iff:
  assumes "getBaseArtifacts env drv requested stg s = (Inr bA, s')"
  shows "fst (getBrowserVersion drv (world s)) = Inr (HostUserAgent bA)
     \<and> (TestedAsMobileDevice bA \<longleftrightarrow>
          (emulatedFormFactor stg = Some ''mobile'' \<or>
           (emulatedFormFactor stg \<noteq> Some ''mobile'' \<and> emulatedFormFactor stg \<noteq> Some ''desktop'' \<and>
            ((\<exists>pre post. HostUserAgent bA = pre @ ''Android'' @ post) \<or>
             (\<exists>pre post. HostUserAgent bA = pre @ ''Mobile'' @ post)))))
     \<and> (emulatedFormFactor stg = Some ''desktop'' \<longrightarrow> \<not> TestedAsMobileDevice bA)"
proof -
  from assms have 1: "fst (getBrowserVersion drv (world s)) = Inr (HostUserAgent bA)"
    and t: "TestedAsMobileDevice bA =
         (emulatedFormFactor stg = Some ''mobile'' \<or>
          (emulatedFormFactor stg \<noteq> Some ''desktop'' \<and>
           (string_includes (HostUserAgent bA) ''Android'' \<or>
            string_includes (HostUserAgent bA) ''Mobile'')))"
    by (auto simp: getBaseArtifacts_def await_then_def invoke_def Let_def
             split: prod.splits sum.splits)
  have 2: "TestedAsMobileDevice bA \<longleftrightarrow>
          (emulatedFormFactor stg = Some ''mobile'' \<or>
           (emulatedFormFactor stg \<noteq> Some ''mobile'' \<and> emulatedFormFactor stg \<noteq> Some ''desktop'' \<and>
            ((\<exists>pre post. HostUserAgent bA = pre @ ''Android'' @ post) \<or>
             (\<exists>pre post. HostUserAgent bA = pre @ ''Mobile'' @ post))))"
    unfolding t includes_iff by blast
  have 3: "emulatedFormFactor stg = Some ''desktop'' \<longrightarrow> \<not> TestedAsMobileDevice bA"
    unfolding t by simp
  from 1 2 3 show ?thesis by blast
qed

theorem testedAsMobileDevice_iff_witness:
  "map_sum id TestedAsMobileDevice
     (fst (getBaseArtifacts ex_env ex_driver ''http://a.test/'' ex_settings ex_state)) = Inr False
   \<and> map_sum id TestedAsMobileDevice
     (fst (getBaseArtifacts ex_env ex_driver ''http://a.test/''
        (ex_settings\<lparr>emulatedFormFactor := None\<rparr>) ex_state)) = Inr True"
proof -
  obtain bA s' where
    h: "getBaseArtifacts ex_env ex_driver ''http://a.test/'' ex_settings ex_state = (Inr bA, s')"
    by (simp add: getBaseArtifacts_def await_then_def invoke_def ex_driver_def)
  have "\<not> TestedAsMobileDevice bA"
    using testedAsMobileDevice_iff [OF h] by (simp add: ex_settings_def)
  with h have d: "map_sum id TestedAsMobileDevice
     (fst (getBaseArtifacts ex_env ex_driver ''http://a.test/'' ex_settings ex_state)) = Inr False"
    by simp
  obtain bA2 s2 where
    h2: "getBaseArtifacts ex_env ex_driver ''http://a.test/''
           (ex_settings\<lparr>emulatedFormFactor := None\<rparr>) ex_state = (Inr bA2, s2)"
    by (simp add: getBaseArtifacts_def await_then_def invoke_def ex_driver_def)
  note T = testedAsMobileDevice_iff [OF h2]
  from T have ua: "HostUserAgent bA2 = ''Mozilla/5.0 (Linux; Android 7.0) Mobile Safari''"
    by (simp add: ex_driver_def ex_state_def)
  have "string_includes (HostUserAgent bA2) ''Android''"
    unfolding ua by simp
  then have "\<exists>pre post. HostUserAgent bA2 = pre @ ''Android'' @ post"
    by (simp add: includes_iff)
  with T have "TestedAsMobileDevice bA2" by simp
  with h2 have "map_sum id TestedAsMobileDevice
     (fst (getBaseArtifacts ex_env ex_driver ''http://a.test/''
        (ex_settings\<lparr>emulatedFormFactor := None\<rparr>) ex_state)) = Inr True"
    by simp
  with d show ?thesis by simp
qed

section \<open>Objects and settled promises\<close>

lemma obj_get_obj_set: "obj_get (obj_set k v obj) n = (if n = k then Some v else obj_get obj n)"
  by (simp add: obj_get_def obj_set_def update_conv')

lemma distinct_obj_set:
  "distinct (map fst obj) \<Longrightarrow> distinct (map fst (obj_set k v obj))"
  by (simp add: obj_set_def distinct_update)

lemma distinct_object_assign:
  "distinct (map fst target) \<Longrightarrow> distinct (map fst (object_assign target source))"
  unfolding object_assign_def
  by (induction source arbitrary: target) (auto simp: distinct_obj_set)

lemma obj_get_None_iff: "obj_get obj n = None \<longleftrightarrow> n \<notin> fst ` set obj"
  by (simp add: obj_get_def map_of_eq_None_iff)

lemma obj_get_Nil: "obj_get [] n = None"
  by (simp add: obj_get_def)


lemma promise_all_first_rejection:
  "promise_all (map Resolved vs @ Rejected r # post) = Inl r"
  by (induction vs) auto


lemma phase_artifact_first_rejection:
  "phase_artifact (map Resolved vs @ Rejected r # post) = r"
  by (simp add: phase_artifact_def promise_all_first_rejection)

section \<open>Collecting the artifacts\<close>

lemma artifact_of_fresh:
  "obj_get acc n = None \<Longrightarrow> n \<notin> set object_prototype_names \<Longrightarrow> artifact_of acc n = Undefined"
  by (simp add: artifact_of_def)

lemma artifact_of_inherited:
  "obj_get acc n = None \<Longrightarrow> n \<in> set object_prototype_names \<Longrightarrow>
   artifact_of acc n = ObjectPrototype n"
  by (simp add: artifact_of_def)

lemma artifact_of_obj_set: "artifact_of (obj_set k v acc) k = v"
  by (simp add: artifact_of_def obj_get_obj_set)

lemma collectArtifacts_loop_other:
  "collectArtifacts_loop results acc = Inr out \<Longrightarrow> n \<notin> fst ` set results \<Longrightarrow>
   obj_get out n = obj_get acc n"
proof (induction results arbitrary: acc)
  case Nil
  then show ?case by simp
next
  case (Cons e results)
  obtain k ps where e: "e = (k, ps)" by (cases e)
  from Cons.prems(2) e have nk: "n \<noteq> k" and nr: "n \<notin> fst ` set results" by auto
  show ?case
  proof (cases "artifact_of acc k \<noteq> Undefined")
    case True
    with Cons.prems(1) e have "collectArtifacts_loop results acc = Inr out" by simp
    then show ?thesis using Cons.IH nr by blast
  next
    case False
    with Cons.prems(1) e
    have "collectArtifacts_loop results (obj_set k (phase_artifact ps) acc) = Inr out"
      by (simp add: Let_def split: if_splits)
    then have "obj_get out n = obj_get (obj_set k (phase_artifact ps) acc) n"
      using Cons.IH nr by blast
    with nk show ?thesis by (simp add: obj_get_obj_set)
  qed
qed

text \<open>
  An entry whose name is inherited from \<^verbatim>\<open>Object.prototype\<close> is skipped: the read of
  the guard finds the inherited member, and nothing is assigned under that name.
\<close>

lemma collectArtifacts_loop_inherited:
  "collectArtifacts_loop results acc = Inr out \<Longrightarrow> n \<in> set object_prototype_names \<Longrightarrow>
   obj_get acc n = None \<Longrightarrow> obj_get out n = None"
proof (induction results arbitrary: acc)
  case Nil
  then show ?case by simp
next
  case (Cons e results)
  obtain k ps where e: "e = (k, ps)" by (cases e)
  show ?case
  proof (cases "artifact_of acc k \<noteq> Undefined")
    case True
    with Cons.prems(1) e have "collectArtifacts_loop results acc = Inr out" by simp
    then show ?thesis using Cons.IH Cons.prems(2,3) by blast
  next
    case False
    with Cons.prems(2,3) have nk: "n \<noteq> k" by (auto simp: artifact_of_def)
    from False Cons.prems(1) e
    have "collectArtifacts_loop results (obj_set k (phase_artifact ps) acc) = Inr out"
      by (simp add: Let_def split: if_splits)
    moreover from nk Cons.prems(3) have "obj_get (obj_set k (phase_artifact ps) acc) n = None"
      by (simp add: obj_get_obj_set)
    ultimately show ?thesis using Cons.IH Cons.prems(2) by blast
  qed
qed

lemma collectArtifacts_loop_entry:
  "collectArtifacts_loop results acc = Inr out \<Longrightarrow> distinct (map fst results) \<Longrightarrow>
   (\<forall>k \<in> fst ` set results. obj_get acc k = None) \<Longrightarrow> (n, hist) \<in> set results \<Longrightarrow>
   n \<notin> set object_prototype_names \<Longrightarrow>
   obj_get out n = Some (phase_artifact hist) \<and> phase_artifact hist \<noteq> Undefined"
proof (induction results arbitrary: acc)
  case Nil
  then show ?case by simp
next
  case (Cons e results)
  obtain k ps where e: "e = (k, ps)" by (cases e)
  from Cons.prems(3) e have fresh: "obj_get acc k = None" by simp
  from Cons.prems(2) e have kr: "k \<notin> fst ` set results" and d: "distinct (map fst results)"
    by auto
  show ?case
  proof (cases "k \<in> set object_prototype_names")
    case True
    with fresh have "artifact_of acc k \<noteq> Undefined" by (simp add: artifact_of_inherited)
    with Cons.prems(1) e have rest: "collectArtifacts_loop results acc = Inr out" by simp
    from True Cons.prems(5) have "n \<noteq> k" by auto
    with Cons.prems(4) e have m: "(n, hist) \<in> set results" by auto
    from Cons.prems(3) have fresh': "\<forall>k' \<in> fst ` set results. obj_get acc k' = None" by simp
    from Cons.IH [OF rest d fresh' m Cons.prems(5)] show ?thesis .
  next
    case False
    with fresh have undef: "artifact_of acc k = Undefined" by (simp add: artifact_of_fresh)
    from Cons.prems(1) e undef
    have defined: "phase_artifact ps \<noteq> Undefined"
      and rest: "collectArtifacts_loop results (obj_set k (phase_artifact ps) acc) = Inr out"
      by (auto simp: Let_def artifact_of_obj_set split: if_splits)
    have fresh': "\<forall>k' \<in> fst ` set results. obj_get (obj_set k (phase_artifact ps) acc) k' = None"
      using Cons.prems(3) kr by (auto simp: obj_get_obj_set)
    show ?thesis
    proof (cases "(n, hist) = (k, ps)")
      case True
      have "obj_get out k = obj_get (obj_set k (phase_artifact ps) acc) k"
        using collectArtifacts_loop_other [OF rest kr] .
      with True defined show ?thesis by (simp add: obj_get_obj_set)
    next
      case False
      with Cons.prems(4) e have "(n, hist) \<in> set results" by auto
      then show ?thesis using Cons.IH [OF rest d fresh' _ Cons.prems(5)] by blast
    qed
  qed
qed

lemma collectArtifacts_loop_total:
  "distinct (map fst results) \<Longrightarrow> (\<forall>k \<in> fst ` set results. obj_get acc k = None) \<Longrightarrow>
   (\<forall>e \<in> set results. phase_artifact (snd e) \<noteq> Undefined) \<Longrightarrow>
   \<exists>out. collectArtifacts_loop results acc = Inr out"
proof (induction results arbitrary: acc)
  case Nil
  then show ?case by simp
next
  case (Cons e results)
  obtain k ps where e: "e = (k, ps)" by (cases e)
  from Cons.prems(2) e have fresh: "obj_get acc k = None" by simp
  from Cons.prems(1) e have kr: "k \<notin> fst ` set results" and d: "distinct (map fst results)"
    by auto
  from Cons.prems(3) e have defined: "phase_artifact ps \<noteq> Undefined" by simp
  from Cons.prems(3) have all: "\<forall>e \<in> set results. phase_artifact (snd e) \<noteq> Undefined" by simp
  show ?case
  proof (cases "artifact_of acc k \<noteq> Undefined")
    case True
    from Cons.prems(2) have "\<forall>k' \<in> fst ` set results. obj_get acc k' = None" by simp
    from Cons.IH [OF d this all] True e show ?thesis by simp
  next
    case False
    have fresh': "\<forall>k' \<in> fst ` set results. obj_get (obj_set k (phase_artifact ps) acc) k' = None"
      using Cons.prems(2) kr by (auto simp: obj_get_obj_set)
    from Cons.IH [OF d fresh' all] obtain out where
      "collectArtifacts_loop results (obj_set k (phase_artifact ps) acc) = Inr out" by blast
    with e False defined show ?thesis
      by (simp add: Let_def artifact_of_obj_set)
  qed
qed

lemma collectArtifacts_Inr:
  "collectArtifacts env results bA s = (Inr arts, s') \<Longrightarrow>
   collectArtifacts_loop results [] = Inr (gatherer_part arts) \<and> s' = s \<and>
   base_part arts = bA\<lparr>LighthouseRunWarnings := unique (LighthouseRunWarnings bA),
                          Timing := getTimeEntries env (world s)\<rparr>"
  by (auto simp: collectArtifacts_def split: sum.splits)

lemmas collect_defs = collectArtifacts_def artifact_of_def obj_get_def obj_set_def
  phase_artifact_def object_prototype_names_def Let_def




text \<open>
  C4, as claimed: with \<^verbatim>\<open>beforePass\<close> and \<^verbatim>\<open>afterPass\<close> resolved to values
  and \<^verbatim>\<open>pass\<close> rejected, the artifact would be the \<^verbatim>\<open>afterPass\<close> value. On
  the history \<open>[Resolved 1, Rejected 2, Resolved 3]\<close> the artifact is the rejection
  \<open>2\<close>, not the \<^verbatim>\<open>afterPass\<close> value \<open>3\<close>.
\<close>

theorem collectArtifacts_rejected_pass_counterexample:
  "map_sum id (bundle_artifact ''X'')
     (fst (collectArtifacts ex_env
        [(''X'', [Resolved (Val 1), Rejected (Val 2), Resolved (Val 3)])]
        ex_baseArtifacts ex_state))
   = Inr (Val 2)
   \<and> map_sum id (bundle_artifact ''X'')
     (fst (collectArtifacts ex_env
        [(''X'', [Resolved (Val 1), Rejected (Val 2), Resolved (Val 3)])]
        ex_baseArtifacts ex_state))
   \<noteq> Inr (Val 3)"
  by (simp add: collect_defs bundle_artifact_def)

text \<open>
  C4, amended. When \<^verbatim>\<open>collectArtifacts\<close> returns, a gatherer whose name is not the
  name of a property of \<^verbatim>\<open>Object.prototype\<close>, whose \<^verbatim>\<open>beforePass\<close> and
  \<^verbatim>\<open>afterPass\<close> hooks resolved and whose \<^verbatim>\<open>pass\<close> hook rejected has as its
  artifact the reason of the \<^verbatim>\<open>pass\<close> rejection: the error is surfaced as the
  artifact and the \<^verbatim>\<open>afterPass\<close> value is discarded.
\<close>

theorem collectArtifacts_rejected_pass:
  assumes "collectArtifacts env results bA s = (Inr arts, s')"
      and "distinct (map fst results)"
      and "(n, [Resolved a, Rejected r, Resolved b]) \<in> set results"
      and "n \<notin> set object_prototype_names"
  shows "obj_get (gatherer_part arts) n = Some r \<and> r \<noteq> Undefined"
proof -
  from assms(1) have loop: "collectArtifacts_loop results [] = Inr (gatherer_part arts)"
    by (simp add: collectArtifacts_Inr)
  have fresh: "\<forall>k \<in> fst ` set results. obj_get [] k = None" by (simp add: obj_get_Nil)
  have "phase_artifact [Resolved a, Rejected r, Resolved b] = r"
    using phase_artifact_first_rejection [of "[a]" r "[Resolved b]"] by simp
  with collectArtifacts_loop_entry [OF loop assms(2) fresh assms(3) assms(4)]
  show ?thesis by simp
qed

theorem collectArtifacts_rejected_pass_witness:
  "map_sum id gatherer_part
     (fst (collectArtifacts ex_env
        [(''X'', [Resolved (Val 1), Rejected (Val 2), Resolved (Val 3)])]
        ex_baseArtifacts ex_state))
   = Inr [(''X'', Val 2)]"
proof -
  obtain arts s' where h: "collectArtifacts ex_env
      [(''X'', [Resolved (Val 1), Rejected (Val 2), Resolved (Val 3)])]
      ex_baseArtifacts ex_state = (Inr arts, s')"
    by (simp add: collect_defs)
  have k: "map fst (gatherer_part arts) = [''X'']"
    using h by (auto simp: collect_defs)
  have "obj_get (gatherer_part arts) ''X'' = Some (Val 2)"
    using collectArtifacts_rejected_pass [OF h, of "''X''" "Val 1" "Val 2" "Val 3"]
    by (simp add: object_prototype_names_def)
  with k have "gatherer_part arts = [(''X'', Val 2)]"
    by (cases "gatherer_part arts") (auto simp: obj_get_def)
  with h show ?thesis by simp
qed

text \<open>
  C5, as claimed: a gatherer all of whose phases rejected would get the last captured
  error. On the history \<open>[Rejected 1, Rejected 2, Rejected 3]\<close> the artifact is the
  first error \<open>1\<close>, not the last error \<open>3\<close>.
\<close>

theorem collectArtifacts_all_rejected_counterexample:
  "map_sum id (bundle_artifact ''X'')
     (fst (collectArtifacts ex_env
        [(''X'', [Rejected (Val 1), Rejected (Val 2), Rejected (Val 3)])]
        ex_baseArtifacts ex_state))
   = Inr (Val 1)
   \<and> map_sum id (bundle_artifact ''X'')
     (fst (collectArtifacts ex_env
        [(''X'', [Rejected (Val 1), Rejected (Val 2), Rejected (Val 3)])]
        ex_baseArtifacts ex_state))
   \<noteq> Inr (Val 3)"
  by (simp add: collect_defs bundle_artifact_def)

text \<open>
  C5, amended. A gatherer whose name is not the name of a property of
  \<^verbatim>\<open>Object.prototype\<close> and all of whose phases rejected, the first of them with a
  reason other than \<^verbatim>\<open>undefined\<close>, does not make \<^verbatim>\<open>collectArtifacts\<close> throw: when
  every other gatherer provides an artifact, \<^verbatim>\<open>collectArtifacts\<close> returns, and the
  artifact of that gatherer is the first captured error in phase order.
\<close>

theorem collectArtifacts_all_rejected:
  assumes "distinct (map fst results)"
      and "(n, map Rejected (r # rs)) \<in> set results"
      and "r \<noteq> Undefined"
      and "\<forall>e \<in> set results. fst e \<noteq> n \<longrightarrow> phase_artifact (snd e) \<noteq> Undefined"
      and "n \<notin> set object_prototype_names"
  shows "\<exists>arts. collectArtifacts env results bA s = (Inr arts, s)
           \<and> obj_get (gatherer_part arts) n = Some r"
proof -
  have pa: "phase_artifact (map Rejected (r # rs)) = r"
    using phase_artifact_first_rejection [of "[]" r "map Rejected rs"] by simp
  have all: "\<forall>e \<in> set results. phase_artifact (snd e) \<noteq> Undefined"
  proof
    fix e assume e: "e \<in> set results"
    show "phase_artifact (snd e) \<noteq> Undefined"
    proof (cases "fst e = n")
      case True
      with e assms(1,2) have "snd e = map Rejected (r # rs)"
        by (metis eq_key_imp_eq_value prod.collapse)
      with pa assms(3) show ?thesis by simp
    next
      case False
      with e assms(4) show ?thesis by blast
    qed
  qed
  have fresh: "\<forall>k \<in> fst ` set results. obj_get [] k = None" by (simp add: obj_get_Nil)
  from collectArtifacts_loop_total [OF assms(1) fresh all] obtain out where
    loop: "collectArtifacts_loop results [] = Inr out" by blast
  from collectArtifacts_loop_entry [OF loop assms(1) fresh assms(2) assms(5)] pa
  have "obj_get out n = Some r" by simp
  with loop show ?thesis by (simp add: collectArtifacts_def)
qed

theorem collectArtifacts_all_rejected_witness:
  "map_sum id gatherer_part
     (fst (collectArtifacts ex_env
        [(''X'', map Rejected [Val 1, Val 2, Val 3]), (''B'', [Resolved (Val 5)])]
        ex_baseArtifacts ex_state))
   = Inr [(''X'', Val 1), (''B'', Val 5)]"
proof -
  have "\<exists>arts. collectArtifacts ex_env
        [(''X'', map Rejected [Val 1, Val 2, Val 3]), (''B'', [Resolved (Val 5)])]
        ex_baseArtifacts ex_state = (Inr arts, ex_state)
           \<and> obj_get (gatherer_part arts) ''X'' = Some (Val 1)"
    using collectArtifacts_all_rejected [where n = "''X''" and r = "Val 1" and rs = "[Val 2, Val 3]"
        and results = "[(''X'', map Rejected [Val 1, Val 2, Val 3]), (''B'', [Resolved (Val 5)])]"
        and env = ex_env and bA = ex_baseArtifacts and s = ex_state]
    by (simp add: phase_artifact_def object_prototype_names_def)
  then obtain arts where h: "collectArtifacts ex_env
        [(''X'', map Rejected [Val 1, Val 2, Val 3]), (''B'', [Resolved (Val 5)])]
        ex_baseArtifacts ex_state = (Inr arts, ex_state)"
    and x: "obj_get (gatherer_part arts) ''X'' = Some (Val 1)" by blast
  from h have "gatherer_part arts = [(''X'', the (obj_get (gatherer_part arts) ''X'')), (''B'', Val 5)]"
    by (auto simp: collect_defs)
  with x have "gatherer_part arts = [(''X'', Val 1), (''B'', Val 5)]" by simp
  with h show ?thesis by simp
qed

section \<open>Events are only appended\<close>

lemma appends_eventsD:
  "appends_events m \<Longrightarrow> m s = (r, s') \<Longrightarrow> \<exists>evs. events s' = events s @ evs"
  by (metis appends_events_def snd_conv)

lemma appends_return: "appends_events (return x)"
  by (simp add: appends_events_def return_def)

lemma appends_throw: "appends_events (throw e)"
  by (simp add: appends_events_def throw_def)

lemma appends_pair: "appends_events (\<lambda>s. (r s, s))"
  by (simp add: appends_events_def)

lemma appends_log_event: "appends_events (\<lambda>s. (r, log_event ev s))"
  by (simp add: appends_events_def log_event_def)

lemma appends_await_then:
  assumes "appends_events m" and "\<And>x. appends_events (f x)"
  shows "appends_events (await_then m f)"
  unfolding appends_events_def
proof
  fix s
  obtain r s1 where m: "m s = (r, s1)" by (cases "m s")
  from appends_eventsD [OF assms(1) m] obtain evs where e1: "events s1 = events s @ evs" by blast
  show "\<exists>evs. events (snd (await_then m f s)) = events s @ evs"
  proof (cases r)
    case (Inl e)
    with m e1 show ?thesis by (simp add: await_then_def)
  next
    case (Inr x)
    obtain r2 s2 where f: "f x s1 = (r2, s2)" by (cases "f x s1")
    from appends_eventsD [OF assms(2) f] obtain evs2 where "events s2 = events s1 @ evs2" by blast
    with Inr m e1 f show ?thesis by (simp add: await_then_def)
  qed
qed

lemma appends_case_sum:
  assumes "appends_events m" and "\<And>e. appends_events (f e)" and "\<And>x. appends_events (g x)"
  shows "appends_events (\<lambda>s. case m s of (Inl e, s') \<Rightarrow> f e s' | (Inr x, s') \<Rightarrow> g x s')"
  unfolding appends_events_def
proof
  fix s
  obtain r s1 where m: "m s = (r, s1)" by (cases "m s")
  from appends_eventsD [OF assms(1) m] obtain evs where e1: "events s1 = events s @ evs" by blast
  show "\<exists>evs. events (snd (case m s of (Inl e, s') \<Rightarrow> f e s' | (Inr x, s') \<Rightarrow> g x s')) = events s @ evs"
  proof (cases r)
    case (Inl e)
    obtain r2 s2 where f: "f e s1 = (r2, s2)" by (cases "f e s1")
    from appends_eventsD [OF assms(2) f] obtain evs2 where "events s2 = events s1 @ evs2" by blast
    with Inl m e1 f show ?thesis by simp
  next
    case (Inr x)
    obtain r2 s2 where g: "g x s1 = (r2, s2)" by (cases "g x s1")
    from appends_eventsD [OF assms(3) g] obtain evs2 where "events s2 = events s1 @ evs2" by blast
    with Inr m e1 g show ?thesis by simp
  qed
qed

lemma appends_then:
  assumes "appends_events m" and "\<And>x. appends_events (g x)"
  shows "appends_events (\<lambda>s. case m s of (x, s') \<Rightarrow> g x s')"
  unfolding appends_events_def
proof
  fix s
  obtain r s1 where m: "m s = (r, s1)" by (cases "m s")
  from appends_eventsD [OF assms(1) m] obtain evs where e1: "events s1 = events s @ evs" by blast
  obtain r2 s2 where g: "g r s1 = (r2, s2)" by (cases "g r s1")
  from appends_eventsD [OF assms(2) g] obtain evs2 where "events s2 = events s1 @ evs2" by blast
  with m e1 g show "\<exists>evs. events (snd (case m s of (x, s') \<Rightarrow> g x s')) = events s @ evs" by simp
qed

lemma appends_prod: "(\<And>a b. appends_events (f a b)) \<Longrightarrow> appends_events (case p of (a, b) \<Rightarrow> f a b)"
  by (cases p) simp

lemma appends_invoke: "appends_events (invoke ev f)"
  by (auto simp: appends_events_def invoke_def log_event_def split: prod.splits)

lemma appends_driver_command: "appends_events (driver_command drv c)"
  by (simp add: driver_command_def appends_invoke)

lemma appends_driver_commands: "appends_events (driver_commands drv cs)"
proof (induction cs)
  case Nil
  show ?case by (simp add: appends_events_def)
next
  case (Cons c cs)
  have "driver_commands drv (c # cs) =
      (\<lambda>s. case driver_command drv c s of (Inl e, s') \<Rightarrow> (Inl e, s')
                                         | (Inr u, s') \<Rightarrow> driver_commands drv cs s')"
    by (rule ext) simp
  then show ?case
    by (simp only:) (intro appends_case_sum appends_driver_command appends_pair Cons.IH)
qed

lemma appends_driver_gotoURL: "appends_events (driver_gotoURL drv target opts)"
  unfolding driver_gotoURL_def
  by (intro appends_await_then appends_invoke appends_log_event)

lemma appends_driver_endDevtoolsLog: "appends_events (driver_endDevtoolsLog drv)"
  unfolding driver_endDevtoolsLog_def
  by (intro appends_await_then appends_invoke appends_log_event)

lemma appends_loadBlank: "appends_events (loadBlank drv target)"
  unfolding loadBlank_def
  by (intro appends_await_then appends_driver_gotoURL appends_return)

lemma appends_loadPage: "appends_events (loadPage drv passContext)"
  unfolding loadPage_def
  by (intro appends_await_then appends_driver_gotoURL appends_return)

lemma appends_setupDriver: "appends_events (setupDriver drv requested stg)"
  by (simp add: setupDriver_def appends_driver_commands)

lemma appends_disposeDriver: "appends_events (disposeDriver drv)"
  unfolding appends_events_def
proof
  fix s
  obtain r s1 where d: "driver_command drv Disconnect s = (r, s1)"
    by (cases "driver_command drv Disconnect s")
  from appends_eventsD [OF appends_driver_command d] obtain evs where
    "events s1 = events s @ evs" by blast
  with d show "\<exists>evs. events (snd (disposeDriver drv s)) = events s @ evs"
    by (cases r) (simp_all add: disposeDriver_def)
qed

lemma appends_setupPassNetwork: "appends_events (setupPassNetwork drv passContext)"
  by (simp add: setupPassNetwork_def Let_def appends_driver_commands)

lemma appends_beginRecording: "appends_events (beginRecording drv passContext)"
  by (simp add: beginRecording_def appends_driver_commands)

lemma appends_endRecording: "appends_events (endRecording env drv passContext)"
  unfolding endRecording_def
  by (intro appends_await_then appends_driver_endDevtoolsLog appends_return)
     (simp add: appends_await_then appends_invoke appends_return)

lemma appends_call_hook: "appends_events (call_hook ph n h passContext)"
  by (auto simp: appends_events_def call_hook_def log_event_def split: prod.splits)

lemma appends_beforePass_loop: "appends_events (beforePass_loop gs passContext gathererResults)"
proof (induction gs arbitrary: passContext gathererResults)
  case Nil
  show ?case by (simp add: appends_events_def)
next
  case (Cons gd gs)
  have "beforePass_loop (gd # gs) passContext gathererResults =
     (\<lambda>s. case call_hook BeforePassPhase (name (instance_of gd))
                  (beforePass_hook (instance_of gd)
                     (hook_view (passContext\<lparr>ctx_options := options gd\<rparr>)))
                  (passContext\<lparr>ctx_options := options gd\<rparr>) s of
             (x, s') \<Rightarrow> (case x of (artifactPromise, passContext2) \<Rightarrow>
               beforePass_loop gs passContext2
                 (obj_set (name (instance_of gd)) [artifactPromise] gathererResults)) s')"
    by (rule ext) (simp add: Let_def split: prod.splits)
  then show ?case
    by (simp only:) (intro appends_then appends_call_hook appends_prod Cons.IH)
qed

lemma appends_pass_loop: "appends_events (pass_loop gs passContext gathererResults)"
proof (induction gs arbitrary: passContext gathererResults)
  case Nil
  show ?case by (simp add: appends_events_def)
next
  case (Cons gd gs)
  have "pass_loop (gd # gs) passContext gathererResults =
     (\<lambda>s. case call_hook PassPhase (name (instance_of gd))
                  (pass_hook (instance_of gd)
                     (hook_view (passContext\<lparr>ctx_options := options gd\<rparr>)))
                  (passContext\<lparr>ctx_options := options gd\<rparr>) s of
             (x, s') \<Rightarrow> (case x of (artifactPromise, passContext2) \<Rightarrow>
               pass_loop gs passContext2
                 (obj_set (name (instance_of gd))
                    (history_of gathererResults (name (instance_of gd)) @ [artifactPromise])
                    gathererResults)) s')"
    by (rule ext) (simp add: Let_def split: prod.splits)
  then show ?case
    by (simp only:) (intro appends_then appends_call_hook appends_prod Cons.IH)
qed

lemma appends_afterPass_loop:
  "appends_events (afterPass_loop gs loadData passContext gathererResults)"
proof (induction gs arbitrary: passContext gathererResults)
  case Nil
  show ?case by (simp add: appends_events_def)
next
  case (Cons gd gs)
  have "afterPass_loop (gd # gs) loadData passContext gathererResults =
     (\<lambda>s. case call_hook AfterPassPhase (name (instance_of gd))
                  (afterPass_hook (instance_of gd)
                     (hook_view (passContext\<lparr>ctx_options := options gd\<rparr>)) loadData)
                  (passContext\<lparr>ctx_options := options gd\<rparr>) s of
             (x, s') \<Rightarrow> (case x of (artifactPromise, passContext2) \<Rightarrow>
               afterPass_loop gs loadData passContext2
                 (obj_set (name (instance_of gd))
                    (history_of gathererResults (name (instance_of gd)) @ [artifactPromise])
                    gathererResults)) s')"
    by (rule ext) (simp add: Let_def split: prod.splits)
  then show ?case
    by (simp only:) (intro appends_then appends_call_hook appends_prod Cons.IH)
qed

lemma appends_beforePass: "appends_events (beforePass passContext gathererResults)"
proof -
  have "beforePass passContext gathererResults =
     (\<lambda>s. case beforePass_loop (gatherers (passConfig passContext)) passContext gathererResults s of
             (r, s') \<Rightarrow> (Inr r, s'))"
    by (rule ext) (simp add: beforePass_def)
  then show ?thesis
    by (simp only:) (intro appends_then appends_beforePass_loop appends_pair)
qed

lemma appends_pass: "appends_events (pass passContext gathererResults)"
proof -
  have "pass passContext gathererResults =
     (\<lambda>s. case pass_loop (gatherers (passConfig passContext)) passContext gathererResults s of
             (r, s') \<Rightarrow> (Inr r, s'))"
    by (rule ext) (simp add: pass_def)
  then show ?thesis
    by (simp only:) (intro appends_then appends_pass_loop appends_pair)
qed

lemma appends_afterPass: "appends_events (afterPass passContext loadData gathererResults)"
proof -
  have "afterPass passContext loadData gathererResults =
     (\<lambda>s. case afterPass_loop (gatherers (passConfig passContext)) loadData passContext
                  gathererResults s of
             (r, s') \<Rightarrow> (Inr r, s'))"
    by (rule ext) (simp add: afterPass_def)
  then show ?thesis
    by (simp only:) (intro appends_then appends_afterPass_loop appends_pair)
qed

lemma appends_getBaseArtifacts: "appends_events (getBaseArtifacts env drv requested stg)"
  unfolding getBaseArtifacts_def Let_def
  by (intro appends_await_then appends_invoke appends_pair)

lemma appends_getWebAppManifest: "appends_events (getWebAppManifest env drv passContext)"
  unfolding getWebAppManifest_def
  by (intro appends_await_then appends_invoke appends_return)

lemma appends_if:
  "appends_events m1 \<Longrightarrow> appends_events m2 \<Longrightarrow> appends_events (if c then m1 else m2)"
  by simp

lemma appends_runPass_until_check: "appends_events (runPass_until_check env drv passContext)"
  unfolding runPass_until_check_def Let_def
  by (intro appends_await_then appends_prod appends_if appends_setupPassNetwork
        appends_driver_command appends_return appends_beforePass appends_beginRecording
        appends_loadPage appends_pass appends_endRecording)

lemma appends_runPass: "appends_events (runPass env drv passContext)"
  unfolding runPass_def
proof (intro appends_await_then appends_prod appends_runPass_until_check)
  fix passContext1 :: "('a, 'b) pass_context" and gathererResults :: "'b gatherer_results"
    and loadData :: "'b load_data"
  show "appends_events (\<lambda>s. let pageLoadError0 =
                 getPageLoadError (equalWithExcludedFragments env) (hasErrorStatusCode env)
                   (ctx_url passContext1) (networkRecords loadData);
               pageLoadError = (if \<not> online drv (world s) then None else pageLoadError0)
           in case pageLoadError of
                None \<Rightarrow>
                  await_then (afterPass passContext1 loadData gathererResults)
                    (\<lambda>(passContext2, gathererResults1). return (gathererResults1, passContext2)) s
              | Some err \<Rightarrow>
                  (let passContext2 = push_warnings [friendlyMessage env err] passContext1
                   in (Inr (fillWithPageLoadErrors passContext2 err gathererResults,
                            passContext2), s)))"
    unfolding appends_events_def
  proof
    fix s
    have a: "appends_events (await_then (afterPass passContext1 loadData gathererResults)
                    (\<lambda>(passContext2, gathererResults1). return (gathererResults1, passContext2)))"
      by (intro appends_await_then appends_afterPass appends_prod appends_return)
    obtain r s2 where "await_then (afterPass passContext1 loadData gathererResults)
                    (\<lambda>(passContext2, gathererResults1). return (gathererResults1, passContext2)) s
                    = (r, s2)" by (cases "await_then (afterPass passContext1 loadData gathererResults)
                    (\<lambda>(passContext2, gathererResults1). return (gathererResults1, passContext2)) s")
    with appends_eventsD [OF a this]
    show "\<exists>evs. events (snd (let pageLoadError0 =
                 getPageLoadError (equalWithExcludedFragments env) (hasErrorStatusCode env)
                   (ctx_url passContext1) (networkRecords loadData);
               pageLoadError = (if \<not> online drv (world s) then None else pageLoadError0)
           in case pageLoadError of
                None \<Rightarrow>
                  await_then (afterPass passContext1 loadData gathererResults)
                    (\<lambda>(passContext2, gathererResults1). return (gathererResults1, passContext2)) s
              | Some err \<Rightarrow>
                  (let passContext2 = push_warnings [friendlyMessage env err] passContext1
                   in (Inr (fillWithPageLoadErrors passContext2 err gathererResults,
                            passContext2), s)))) = events s @ evs"
      by (auto simp: Let_def split: option.splits)
  qed
qed

lemma appends_option:
  "appends_events m1 \<Longrightarrow> (\<And>x. appends_events (m2 x)) \<Longrightarrow>
   appends_events (case v of None \<Rightarrow> m1 | Some x \<Rightarrow> m2 x)"
  by (cases v) simp_all

lemma appends_run_loop_body:
  "appends_events (run_loop_body env drv requested stg pc isFirstPass gathererResults bA)"
  unfolding run_loop_body_def Let_def
  by (intro appends_await_then appends_prod appends_if appends_option appends_loadBlank
        appends_return appends_throw appends_runPass appends_getWebAppManifest appends_invoke)

lemma appends_run_passes:
  "appends_events (run_passes env drv requested stg passes isFirstPass gathererResults bA)"
proof (induction passes arbitrary: isFirstPass gathererResults bA)
  case Nil
  show ?case by (simp add: appends_events_def)
next
  case (Cons pc rest)
  have "run_passes env drv requested stg (pc # rest) isFirstPass gathererResults bA =
     (\<lambda>s. case run_loop_body env drv requested stg pc isFirstPass gathererResults bA s of
        (Inl e, s') \<Rightarrow> (Inl e, s')
      | (Inr x, s') \<Rightarrow> (case x of (gathererResults1, bA1) \<Rightarrow>
          run_passes env drv requested stg rest False gathererResults1 bA1) s')"
    by (rule ext) (simp split: prod.splits sum.splits)
  then show ?case
    by (simp only:) (intro appends_case_sum appends_run_loop_body appends_pair appends_prod Cons.IH)
qed

lemma appends_run_try: "appends_events (run_try env passes drv requested stg)"
  unfolding run_try_def
  by (intro appends_await_then appends_prod appends_if appends_driver_command
        appends_getBaseArtifacts appends_loadBlank appends_invoke appends_setupDriver
        appends_run_passes appends_disposeDriver appends_return)

section \<open>Failure of a run\<close>

lemma disposeDriver_result:
  "events (snd (disposeDriver drv s)) = events s @ [Command Disconnect] \<and>
   world (snd (disposeDriver drv s)) = snd (command drv Disconnect (world s)) \<and>
   fst (disposeDriver drv s) =
     (if fst (command drv Disconnect (world s)) = Inl Undefined \<or>
         fst (command drv Disconnect (world s)) = Inl Null
      then Inl (Err ''TypeError'') else Inr ())"
  by (auto simp: disposeDriver_def driver_command_def invoke_def log_event_def
           split: prod.splits sum.splits)

lemma collectArtifacts_state: "collectArtifacts env results bA s = (r, s') \<Longrightarrow> s' = s"
  by (auto simp: collectArtifacts_def split: sum.splits)

lemma run_try_ends_with_dispose:
  fixes env :: "('w, 'a) env"
  assumes "run_try env passes drv requested stg s = (Inr x, s')"
  shows "\<exists>evs. events s' = events s @ evs @ [Command Disconnect]"
proof -
  define before where "before =
     (\<lambda>k :: 'a gatherer_results \<Rightarrow> 'a base_artifacts \<Rightarrow>
            ('w, 'a, 'a gatherer_results \<times> 'a base_artifacts) action.
     await_then (driver_command drv Connect) (\<lambda>_.
     await_then (getBaseArtifacts env drv requested stg) (\<lambda>bA.
     await_then (loadBlank drv (defaultBlankPage env)) (\<lambda>_.
     await_then (invoke (Query GetBenchmarkIndex) (getBenchmarkIndex drv)) (\<lambda>benchmarkIndex.
     await_then (setupDriver drv requested stg) (\<lambda>_.
     await_then (run_passes env drv requested stg passes True []
                   (bA\<lparr>BenchmarkIndex := benchmarkIndex\<rparr>)) (\<lambda>(gathererResults, bA1).
     await_then (if \<not> disableStorageReset stg
                 then driver_command drv (ClearDataForOrigin requested)
                 else return ()) (\<lambda>_. k gathererResults bA1))))))))"
  have split: "run_try env passes drv requested stg =
      before (\<lambda>gathererResults bA1.
        await_then (disposeDriver drv) (\<lambda>_. return (gathererResults, bA1)))"
    by (simp add: run_try_def before_def)
  have unroll: "before k =
      await_then (before (\<lambda>g b. return (g, b))) (\<lambda>(g, b). k g b)" for k
    by (rule ext)
       (simp add: before_def await_then_def return_def split: prod.splits sum.splits)
  have mono: "appends_events (before (\<lambda>g b. return (g, b)))"
    unfolding before_def
    by (intro appends_await_then appends_prod appends_if appends_driver_command
        appends_getBaseArtifacts appends_loadBlank appends_invoke appends_setupDriver
        appends_run_passes appends_return)
  from assms have "await_then (before (\<lambda>g b. return (g, b)))
      (\<lambda>(g, b). await_then (disposeDriver drv) (\<lambda>_. return (g, b))) s = (Inr x, s')"
    using split unroll by metis
  then obtain y s1 where b: "before (\<lambda>g b. return (g, b)) s = (Inr y, s1)"
    and d: "(case y of (g, b) \<Rightarrow> await_then (disposeDriver drv) (\<lambda>_. return (g, b))) s1 = (Inr x, s')"
    by (rule await_then_InrE)
  from appends_eventsD [OF mono b] obtain evs where e: "events s1 = events s @ evs" by blast
  from d have "s' = snd (disposeDriver drv s1)"
    by (auto simp: await_then_def return_def split: prod.splits sum.splits)
  then have "events s' = events s1 @ [Command Disconnect]"
    by (simp add: disposeDriver_result)
  with e show ?thesis by simp
qed

lemma run_passes_append:
  "run_passes env drv requested stg (pre @ rest) isFirstPass res bA s =
     (case run_passes env drv requested stg pre isFirstPass res bA s of
        (Inl e, s') \<Rightarrow> (Inl e, s')
      | (Inr (res1, bA1), s') \<Rightarrow>
          run_passes env drv requested stg rest (isFirstPass \<and> pre = []) res1 bA1 s')"
proof (induction pre arbitrary: isFirstPass res bA s)
  case Nil
  show ?case by simp
next
  case (Cons pc pre)
  show ?case
    by (auto simp: Cons.IH split: prod.splits sum.splits)
qed

lemmas run_defs = await_then_def return_def throw_def invoke_def log_event_def driver_command_def
  driver_gotoURL_def driver_endDevtoolsLog_def loadBlank_def loadPage_def setupDriver_def
  disposeDriver_def setupPassNetwork_def beginRecording_def endRecording_def hook_view_def
  push_warnings_def call_hook_def beforePass_def pass_def afterPass_def fillWithPageLoadErrors_def
  phase_artifact_def artifact_of_def collectArtifacts_def getBaseArtifacts_def
  getWebAppManifest_def isPerfPass_def runPass_until_check_def runPass_def has_user_agent_def
  user_agent_of_def run_loop_body_def run_try_def run_def obj_get_def obj_set_def
  object_assign_def history_of_def getPageLoadError_def object_prototype_names_def Let_def

text \<open>
  C6. Whichever step of \<^verbatim>\<open>run\<close> is the first to raise (connecting, building the
  base artifacts, loading the blank page, reading the benchmark index, setting up the
  driver, the passes, clearing the storage, disposing the driver), \<^verbatim>\<open>run\<close> raises
  the same exception, in the state that step left followed by a call of
  \<^verbatim>\<open>disposeDriver\<close>, whose own outcome is ignored. The passes raise when the body
  of the loop raises for some pass, the passes before it having returned; the body raises
  when \<^verbatim>\<open>runPass\<close>, the blank page between two passes, the manifest or the stack
  detection raises; and \<^verbatim>\<open>runPass\<close> raises when one of its driver steps does. When
  no step raised, \<^verbatim>\<open>run\<close> is the assembly by \<^verbatim>\<open>collectArtifacts\<close>: an
  exception of the assembly reaches the caller as it is, the driver having been disposed
  by the last step. \<^verbatim>\<open>disposeDriver\<close> calls \<^verbatim>\<open>driver.disconnect()\<close> once and
  swallows what it throws, except \<^verbatim>\<open>undefined\<close> and \<^verbatim>\<open>null\<close>, on which
  reading \<^verbatim>\<open>err.message\<close> raises a \<^verbatim>\<open>TypeError\<close>. Whenever \<^verbatim>\<open>run\<close>
  fails, the last thing it did to the driver is the call of \<^verbatim>\<open>disconnect\<close>, and
  \<^verbatim>\<open>run\<close> returns artifacts only when no step and not the assembly raised: a
  failed run returns no bundle.
\<close>

theorem run_rethrows_after_dispose:
  "(driver_command drv Connect s = (Inl e, s1) \<longrightarrow>
      run env passes drv requested stg s = (Inl e, snd (disposeDriver drv s1)))
   \<and> (driver_command drv Connect s = (Inr u1, sA) \<longrightarrow>
     (getBaseArtifacts env drv requested stg sA = (Inl e, s1) \<longrightarrow>
        run env passes drv requested stg s = (Inl e, snd (disposeDriver drv s1)))
   \<and> (getBaseArtifacts env drv requested stg sA = (Inr b0, sB) \<longrightarrow>
     (loadBlank drv (defaultBlankPage env) sB = (Inl e, s1) \<longrightarrow>
        run env passes drv requested stg s = (Inl e, snd (disposeDriver drv s1)))
   \<and> (loadBlank drv (defaultBlankPage env) sB = (Inr u2, sC) \<longrightarrow>
     (invoke (Query GetBenchmarkIndex) (getBenchmarkIndex drv) sC = (Inl e, s1) \<longrightarrow>
        run env passes drv requested stg s = (Inl e, snd (disposeDriver drv s1)))
   \<and> (invoke (Query GetBenchmarkIndex) (getBenchmarkIndex drv) sC = (Inr bi, sD) \<longrightarrow>
     (setupDriver drv requested stg sD = (Inl e, s1) \<longrightarrow>
        run env passes drv requested stg s = (Inl e, snd (disposeDriver drv s1)))
   \<and> (setupDriver drv requested stg sD = (Inr u3, sE) \<longrightarrow>
     (run_passes env drv requested stg passes True [] (b0\<lparr>BenchmarkIndex := bi\<rparr>) sE
        = (Inl e, s1) \<longrightarrow>
        run env passes drv requested stg s = (Inl e, snd (disposeDriver drv s1)))
   \<and> (run_passes env drv requested stg passes True [] (b0\<lparr>BenchmarkIndex := bi\<rparr>) sE
        = (Inr (res, bA), sF) \<longrightarrow>
     ((if \<not> disableStorageReset stg then driver_command drv (ClearDataForOrigin requested)
       else return ()) sF = (Inl e, s1) \<longrightarrow>
        run env passes drv requested stg s = (Inl e, snd (disposeDriver drv s1)))
   \<and> ((if \<not> disableStorageReset stg then driver_command drv (ClearDataForOrigin requested)
        else return ()) sF = (Inr u4, sG) \<longrightarrow>
     (disposeDriver drv sG = (Inl e, s1) \<longrightarrow>
        run env passes drv requested stg s = (Inl e, snd (disposeDriver drv s1)))
   \<and> (disposeDriver drv sG = (Inr u5, sH) \<longrightarrow>
        run env passes drv requested stg s = collectArtifacts env res bA sH
        \<and> (collectArtifacts env res bA sH = (Inl e, s1) \<longrightarrow>
             run env passes drv requested stg s = (Inl e, sH))))))))))
   \<and> (run_passes env drv requested stg pre isFirstPass res0 bA0 s0 = (Inr (res1, bA1), s2) \<and>
        run_loop_body env drv requested stg pc (isFirstPass \<and> pre = []) res1 bA1 s2 = (Inl e, s1)
      \<longrightarrow> run_passes env drv requested stg (pre @ pc # post) isFirstPass res0 bA0 s0 = (Inl e, s1))
   \<and> (runPass env drv \<lparr>ctx_url = requested, ctx_settings = stg, passConfig = pc,
                        baseArtifacts = bA0, ctx_options = None\<rparr> s0 = (Inl e, s1)
      \<longrightarrow> run_loop_body env drv requested stg pc True res0 bA0 s0 = (Inl e, s1))
   \<and> (loadBlank drv (case blankPage pc of None \<Rightarrow> defaultBlankPage env | Some b \<Rightarrow> b) s0
        = (Inl e, s1)
      \<longrightarrow> run_loop_body env drv requested stg pc False res0 bA0 s0 = (Inl e, s1))
   \<and> (loadBlank drv (case blankPage pc of None \<Rightarrow> defaultBlankPage env | Some b \<Rightarrow> b) s0
        = (Inr u2, s2) \<and>
      runPass env drv \<lparr>ctx_url = requested, ctx_settings = stg, passConfig = pc,
                        baseArtifacts = bA0, ctx_options = None\<rparr> s2 = (Inl e, s1)
      \<longrightarrow> run_loop_body env drv requested stg pc False res0 bA0 s0 = (Inl e, s1))
   \<and> (runPass env drv \<lparr>ctx_url = requested, ctx_settings = stg, passConfig = pc,
                        baseArtifacts = bA0, ctx_options = None\<rparr> s0 = (Inr (passResults, c1), s2) \<and>
      getWebAppManifest env drv c1 s2 = (Inl e, s1)
      \<longrightarrow> run_loop_body env drv requested stg pc True res0 bA0 s0 = (Inl e, s1))
   \<and> (runPass env drv \<lparr>ctx_url = requested, ctx_settings = stg, passConfig = pc,
                        baseArtifacts = bA0, ctx_options = None\<rparr> s0 = (Inr (passResults, c1), s2) \<and>
      getWebAppManifest env drv c1 s2 = (Inr manifest, s3) \<and>
      invoke (Query StackCollector) (stacksGatherer env) s3 = (Inl e, s1)
      \<longrightarrow> run_loop_body env drv requested stg pc True res0 bA0 s0 = (Inl e, s1))
   \<and> (setupPassNetwork drv c s0 = (Inl e, s1) \<longrightarrow> runPass env drv c s0 = (Inl e, s1))
   \<and> (setupPassNetwork drv c s0 = (Inr v1, t1) \<longrightarrow>
     ((if isPerfPass c then driver_command drv CleanBrowserCaches else return ()) t1 = (Inl e, s1)
        \<longrightarrow> runPass env drv c s0 = (Inl e, s1))
   \<and> ((if isPerfPass c then driver_command drv CleanBrowserCaches else return ()) t1 = (Inr v2, t2)
        \<and> beforePass c [] t2 = (Inr (cB, resB), t3) \<longrightarrow>
     (beginRecording drv cB t3 = (Inl e, s1) \<longrightarrow> runPass env drv c s0 = (Inl e, s1))
   \<and> (beginRecording drv cB t3 = (Inr v3, t4) \<longrightarrow>
     (loadPage drv cB t4 = (Inl e, s1) \<longrightarrow> runPass env drv c s0 = (Inl e, s1))
   \<and> (loadPage drv cB t4 = (Inr cE, t5) \<and> pass cE resB t5 = (Inr (cF, resF), t6) \<longrightarrow>
     (endRecording env drv cF t6 = (Inl e, s1) \<longrightarrow> runPass env drv c s0 = (Inl e, s1))
   \<and> (endRecording env drv cF t6 = (Inr ld, t7) \<longrightarrow>
     (driver_command drv (SetThrottling (ctx_settings cF) False) t7 = (Inl e, s1)
        \<longrightarrow> runPass env drv c s0 = (Inl e, s1)))))))
   \<and> events (snd (disposeDriver drv s0)) = events s0 @ [Command Disconnect]
   \<and> world (snd (disposeDriver drv s0)) = snd (command drv Disconnect (world s0))
   \<and> fst (disposeDriver drv s0) =
       (if fst (command drv Disconnect (world s0)) = Inl Undefined \<or>
           fst (command drv Disconnect (world s0)) = Inl Null
        then Inl (Err ''TypeError'') else Inr ())
   \<and> (run_try env passes drv requested stg s = (Inl err, s1) \<longrightarrow>
      run env passes drv requested stg s = (Inl err, snd (disposeDriver drv s1)) \<and>
      events (snd (disposeDriver drv s1)) = events s1 @ [Command Disconnect])
   \<and> (run env passes drv requested stg s = (Inl err, s') \<longrightarrow>
      (\<exists>evs. events s' = events s @ evs @ [Command Disconnect]) \<and>
      (fst (run_try env passes drv requested stg s) = Inl err \<or>
       (\<exists>gathererResults bA. run_try env passes drv requested stg s = (Inr (gathererResults, bA), s')
          \<and> collectArtifacts env gathererResults bA s' = (Inl err, s'))))
   \<and> (run env passes drv requested stg s = (Inr arts, s') \<longrightarrow>
      (\<exists>gathererResults bA. run_try env passes drv requested stg s = (Inr (gathererResults, bA), s')
          \<and> collectArtifacts env gathererResults bA s' = (Inr arts, s')))"
proof -
  have chain: "(driver_command drv Connect s = (Inl e, s1) \<longrightarrow>
      run env passes drv requested stg s = (Inl e, snd (disposeDriver drv s1)))
   \<and> (driver_command drv Connect s = (Inr u1, sA) \<longrightarrow>
     (getBaseArtifacts env drv requested stg sA = (Inl e, s1) \<longrightarrow>
        run env passes drv requested stg s = (Inl e, snd (disposeDriver drv s1)))
   \<and> (getBaseArtifacts env drv requested stg sA = (Inr b0, sB) \<longrightarrow>
     (loadBlank drv (defaultBlankPage env) sB = (Inl e, s1) \<longrightarrow>
        run env passes drv requested stg s = (Inl e, snd (disposeDriver drv s1)))
   \<and> (loadBlank drv (defaultBlankPage env) sB = (Inr u2, sC) \<longrightarrow>
     (invoke (Query GetBenchmarkIndex) (getBenchmarkIndex drv) sC = (Inl e, s1) \<longrightarrow>
        run env passes drv requested stg s = (Inl e, snd (disposeDriver drv s1)))
   \<and> (invoke (Query GetBenchmarkIndex) (getBenchmarkIndex drv) sC = (Inr bi, sD) \<longrightarrow>
     (setupDriver drv requested stg sD = (Inl e, s1) \<longrightarrow>
        run env passes drv requested stg s = (Inl e, snd (disposeDriver drv s1)))
   \<and> (setupDriver drv requested stg sD = (Inr u3, sE) \<longrightarrow>
     (run_passes env drv requested stg passes True [] (b0\<lparr>BenchmarkIndex := bi\<rparr>) sE
        = (Inl e, s1) \<longrightarrow>
        run env passes drv requested stg s = (Inl e, snd (disposeDriver drv s1)))
   \<and> (run_passes env drv requested stg passes True [] (b0\<lparr>BenchmarkIndex := bi\<rparr>) sE
        = (Inr (res, bA), sF) \<longrightarrow>
     ((if \<not> disableStorageReset stg then driver_command drv (ClearDataForOrigin requested)
       else return ()) sF = (Inl e, s1) \<longrightarrow>
        run env passes drv requested stg s = (Inl e, snd (disposeDriver drv s1)))
   \<and> ((if \<not> disableStorageReset stg then driver_command drv (ClearDataForOrigin requested)
        else return ()) sF = (Inr u4, sG) \<longrightarrow>
     (disposeDriver drv sG = (Inl e, s1) \<longrightarrow>
        run env passes drv requested stg s = (Inl e, snd (disposeDriver drv s1)))
   \<and> (disposeDriver drv sG = (Inr u5, sH) \<longrightarrow>
        run env passes drv requested stg s = collectArtifacts env res bA sH
        \<and> (collectArtifacts env res bA sH = (Inl e, s1) \<longrightarrow>
             run env passes drv requested stg s = (Inl e, sH))))))))))"
    by (simp add: run_def run_try_def await_then_def return_def collectArtifacts_state)
  have loop: "(run_passes env drv requested stg pre isFirstPass res0 bA0 s0 = (Inr (res1, bA1), s2) \<and>
        run_loop_body env drv requested stg pc (isFirstPass \<and> pre = []) res1 bA1 s2 = (Inl e, s1)
      \<longrightarrow> run_passes env drv requested stg (pre @ pc # post) isFirstPass res0 bA0 s0 = (Inl e, s1))"
    by (simp add: run_passes_append)
  have body: "(runPass env drv \<lparr>ctx_url = requested, ctx_settings = stg, passConfig = pc,
                        baseArtifacts = bA0, ctx_options = None\<rparr> s0 = (Inl e, s1)
      \<longrightarrow> run_loop_body env drv requested stg pc True res0 bA0 s0 = (Inl e, s1))
   \<and> (loadBlank drv (case blankPage pc of None \<Rightarrow> defaultBlankPage env | Some b \<Rightarrow> b) s0
        = (Inl e, s1)
      \<longrightarrow> run_loop_body env drv requested stg pc False res0 bA0 s0 = (Inl e, s1))
   \<and> (loadBlank drv (case blankPage pc of None \<Rightarrow> defaultBlankPage env | Some b \<Rightarrow> b) s0
        = (Inr u2, s2) \<and>
      runPass env drv \<lparr>ctx_url = requested, ctx_settings = stg, passConfig = pc,
                        baseArtifacts = bA0, ctx_options = None\<rparr> s2 = (Inl e, s1)
      \<longrightarrow> run_loop_body env drv requested stg pc False res0 bA0 s0 = (Inl e, s1))
   \<and> (runPass env drv \<lparr>ctx_url = requested, ctx_settings = stg, passConfig = pc,
                        baseArtifacts = bA0, ctx_options = None\<rparr> s0 = (Inr (passResults, c1), s2) \<and>
      getWebAppManifest env drv c1 s2 = (Inl e, s1)
      \<longrightarrow> run_loop_body env drv requested stg pc True res0 bA0 s0 = (Inl e, s1))
   \<and> (runPass env drv \<lparr>ctx_url = requested, ctx_settings = stg, passConfig = pc,
                        baseArtifacts = bA0, ctx_options = None\<rparr> s0 = (Inr (passResults, c1), s2) \<and>
      getWebAppManifest env drv c1 s2 = (Inr manifest, s3) \<and>
      invoke (Query StackCollector) (stacksGatherer env) s3 = (Inl e, s1)
      \<longrightarrow> run_loop_body env drv requested stg pc True res0 bA0 s0 = (Inl e, s1))"
    by (simp add: run_loop_body_def await_then_def return_def Let_def)
  have steps: "(setupPassNetwork drv c s0 = (Inl e, s1) \<longrightarrow> runPass env drv c s0 = (Inl e, s1))
   \<and> (setupPassNetwork drv c s0 = (Inr v1, t1) \<longrightarrow>
     ((if isPerfPass c then driver_command drv CleanBrowserCaches else return ()) t1 = (Inl e, s1)
        \<longrightarrow> runPass env drv c s0 = (Inl e, s1))
   \<and> ((if isPerfPass c then driver_command drv CleanBrowserCaches else return ()) t1 = (Inr v2, t2)
        \<and> beforePass c [] t2 = (Inr (cB, resB), t3) \<longrightarrow>
     (beginRecording drv cB t3 = (Inl e, s1) \<longrightarrow> runPass env drv c s0 = (Inl e, s1))
   \<and> (beginRecording drv cB t3 = (Inr v3, t4) \<longrightarrow>
     (loadPage drv cB t4 = (Inl e, s1) \<longrightarrow> runPass env drv c s0 = (Inl e, s1))
   \<and> (loadPage drv cB t4 = (Inr cE, t5) \<and> pass cE resB t5 = (Inr (cF, resF), t6) \<longrightarrow>
     (endRecording env drv cF t6 = (Inl e, s1) \<longrightarrow> runPass env drv c s0 = (Inl e, s1))
   \<and> (endRecording env drv cF t6 = (Inr ld, t7) \<longrightarrow>
     (driver_command drv (SetThrottling (ctx_settings cF) False) t7 = (Inl e, s1)
        \<longrightarrow> runPass env drv c s0 = (Inl e, s1)))))))"
    by (simp add: runPass_def runPass_until_check_def await_then_def return_def)
  have dispose: "events (snd (disposeDriver drv s0)) = events s0 @ [Command Disconnect]
   \<and> world (snd (disposeDriver drv s0)) = snd (command drv Disconnect (world s0))
   \<and> fst (disposeDriver drv s0) =
       (if fst (command drv Disconnect (world s0)) = Inl Undefined \<or>
           fst (command drv Disconnect (world s0)) = Inl Null
        then Inl (Err ''TypeError'') else Inr ())"
    by (rule disposeDriver_result)
  have old: "(run_try env passes drv requested stg s = (Inl err, s1) \<longrightarrow>
      run env passes drv requested stg s = (Inl err, snd (disposeDriver drv s1)) \<and>
      events (snd (disposeDriver drv s1)) = events s1 @ [Command Disconnect])
   \<and> (run env passes drv requested stg s = (Inl err, s') \<longrightarrow>
      (\<exists>evs. events s' = events s @ evs @ [Command Disconnect]) \<and>
      (fst (run_try env passes drv requested stg s) = Inl err \<or>
       (\<exists>gathererResults bA. run_try env passes drv requested stg s = (Inr (gathererResults, bA), s')
          \<and> collectArtifacts env gathererResults bA s' = (Inl err, s'))))
   \<and> (run env passes drv requested stg s = (Inr arts, s') \<longrightarrow>
      (\<exists>gathererResults bA. run_try env passes drv requested stg s = (Inr (gathererResults, bA), s')
          \<and> collectArtifacts env gathererResults bA s' = (Inr arts, s')))"
  proof (intro conjI impI)
    assume t: "run_try env passes drv requested stg s = (Inl err, s1)"
    then show "run env passes drv requested stg s = (Inl err, snd (disposeDriver drv s1))"
      by (simp add: run_def)
    show "events (snd (disposeDriver drv s1)) = events s1 @ [Command Disconnect]"
      by (simp add: disposeDriver_result)
  next
    assume r: "run env passes drv requested stg s = (Inl err, s')"
    obtain res s1 where t: "run_try env passes drv requested stg s = (res, s1)"
      by (cases "run_try env passes drv requested stg s")
    show "\<exists>evs. events s' = events s @ evs @ [Command Disconnect]"
    proof (cases res)
      case (Inl e)
      with r t have s': "s' = snd (disposeDriver drv s1)" by (simp add: run_def)
      from appends_eventsD [OF appends_run_try t] obtain evs where "events s1 = events s @ evs"
        by blast
      with s' show ?thesis by (simp add: disposeDriver_result)
    next
      case (Inr x)
      with r t have "s' = s1"
        by (cases x) (auto simp: run_def dest: collectArtifacts_state)
      with Inr t run_try_ends_with_dispose show ?thesis by blast
    qed
    show "fst (run_try env passes drv requested stg s) = Inl err \<or>
         (\<exists>gathererResults bA. run_try env passes drv requested stg s = (Inr (gathererResults, bA), s')
            \<and> collectArtifacts env gathererResults bA s' = (Inl err, s'))"
    proof (cases res)
      case (Inl e)
      with r t show ?thesis by (simp add: run_def)
    next
      case (Inr x)
      obtain g b where x: "x = (g, b)" by (cases x)
      with Inr r t have c: "collectArtifacts env g b s1 = (Inl err, s')" by (simp add: run_def)
      then have "s' = s1" by (rule collectArtifacts_state)
      with c Inr t x show ?thesis by simp
    qed
  next
    assume r: "run env passes drv requested stg s = (Inr arts, s')"
    obtain res s1 where t: "run_try env passes drv requested stg s = (res, s1)"
      by (cases "run_try env passes drv requested stg s")
    show "\<exists>gathererResults bA. run_try env passes drv requested stg s = (Inr (gathererResults, bA), s')
            \<and> collectArtifacts env gathererResults bA s' = (Inr arts, s')"
    proof (cases res)
      case (Inl e)
      with r t show ?thesis by (simp add: run_def)
    next
      case (Inr x)
      obtain g b where x: "x = (g, b)" by (cases x)
      with Inr r t have c: "collectArtifacts env g b s1 = (Inr arts, s')" by (simp add: run_def)
      then have "s' = s1" by (rule collectArtifacts_state)
      with c Inr t x show ?thesis by simp
    qed
  qed
  from chain loop body steps dispose old show ?thesis
    apply (elim conjE)
    apply (intro conjI)
    apply assumption+
    done
qed


lemmas ex_more_defs = ex_defs ex_driver_no_navigation_def ex_driver_bad_close_def

theorem run_rethrows_after_dispose_witness:
  "run ex_env [ex_pass] ex_driver_unreachable ''http://a.test/'' ex_settings ex_state
     = (Inl (Err ''connection refused''), \<lparr>world = 0, events = [Command Connect, Command Disconnect]\<rparr>)
   \<and> fst (run ex_env [ex_pass] ex_driver_no_navigation ''http://a.test/'' ex_settings ex_state)
     = Inl (Err ''navigation failed'')
   \<and> last (events (snd (run ex_env [ex_pass] ex_driver_no_navigation ''http://a.test/''
                          ex_settings ex_state))) = Command Disconnect
   \<and> fst (run_passes ex_env ex_driver_no_navigation ''http://a.test/'' ex_settings [ex_pass]
             True [] ex_baseArtifacts ex_state) = Inl (Err ''navigation failed'')
   \<and> fst (disposeDriver ex_driver_bad_close ex_state) = Inl (Err ''TypeError'')
   \<and> fst (run ex_env [ex_pass] ex_driver_bad_close ''http://a.test/'' ex_settings ex_state)
     = Inl (Err ''TypeError'')
   \<and> isl (fst (run_try ex_env [ex_pass] ex_driver ''http://a.test/'' ex_settings ex_state)) = False
   \<and> isl (fst (run ex_env [ex_pass] ex_driver ''http://a.test/'' ex_settings ex_state)) = False"
proof -
  note T = run_rethrows_after_dispose [where env = ex_env and passes = "[ex_pass]"
      and requested = "''http://a.test/''" and stg = ex_settings and s = ex_state]
  have c: "driver_command ex_driver_unreachable Connect ex_state
      = (Inl (Err ''connection refused''), \<lparr>world = 0, events = [Command Connect]\<rparr>)"
    by (simp add: driver_command_def invoke_def log_event_def
          ex_driver_unreachable_def ex_driver_def ex_state_def)
  have d: "snd (disposeDriver ex_driver_unreachable \<lparr>world = 0, events = [Command Connect]\<rparr>)
      = \<lparr>world = 0, events = [Command Connect, Command Disconnect]\<rparr>"
    by (simp add: disposeDriver_def driver_command_def invoke_def log_event_def
          ex_driver_unreachable_def ex_driver_def)
  from T [where drv = ex_driver_unreachable and e = "Err ''connection refused''"
        and ?s1.0 = "\<lparr>world = 0, events = [Command Connect]\<rparr>", THEN conjunct1] c d
  have 1: "run ex_env [ex_pass] ex_driver_unreachable ''http://a.test/'' ex_settings ex_state
     = (Inl (Err ''connection refused''), \<lparr>world = 0, events = [Command Connect, Command Disconnect]\<rparr>)"
    by simp
  obtain sN where
    n: "run ex_env [ex_pass] ex_driver_no_navigation ''http://a.test/'' ex_settings ex_state
          = (Inl (Err ''navigation failed''), sN)"
    by (simp add: ex_more_defs run_defs)
  from T [where drv = ex_driver_no_navigation and err = "Err ''navigation failed''" and s' = sN,
          THEN conjunct2, THEN conjunct2, THEN conjunct2, THEN conjunct2, THEN conjunct2, THEN conjunct2, THEN conjunct2, THEN conjunct2, THEN conjunct2, THEN conjunct2, THEN conjunct2, THEN conjunct2, THEN conjunct2, THEN conjunct2, THEN conjunct1]
  have "run ex_env [ex_pass] ex_driver_no_navigation ''http://a.test/'' ex_settings ex_state
          = (Inl (Err ''navigation failed''), sN) \<longrightarrow>
        (\<exists>evs. events sN = events ex_state @ evs @ [Command Disconnect])"
    by blast
  with n obtain evs where "events sN = events ex_state @ evs @ [Command Disconnect]"
    by blast
  with n have 2: "fst (run ex_env [ex_pass] ex_driver_no_navigation ''http://a.test/''
                         ex_settings ex_state) = Inl (Err ''navigation failed'')"
    and 3: "last (events (snd (run ex_env [ex_pass] ex_driver_no_navigation ''http://a.test/''
                          ex_settings ex_state))) = Command Disconnect"
    by simp_all
  from T [where drv = ex_driver_bad_close and ?s0.0 = ex_state,
          THEN conjunct2, THEN conjunct2, THEN conjunct2, THEN conjunct2, THEN conjunct2, THEN conjunct2, THEN conjunct2, THEN conjunct2, THEN conjunct2, THEN conjunct2, THEN conjunct2, THEN conjunct2, THEN conjunct1]
  have "fst (disposeDriver ex_driver_bad_close ex_state) =
       (if fst (command ex_driver_bad_close Disconnect (world ex_state)) = Inl Undefined \<or>
           fst (command ex_driver_bad_close Disconnect (world ex_state)) = Inl Null
        then Inl (Err ''TypeError'') else Inr ())"
    .
  then have 4: "fst (disposeDriver ex_driver_bad_close ex_state) = Inl (Err ''TypeError'')"
    by (simp add: ex_driver_bad_close_def)
  have "\<exists>u1 sA b0 sB u2 sC bi sD u3 sE res bA sF u4 sG sT.
      driver_command ex_driver_bad_close Connect ex_state = (Inr u1, sA) \<and>
      getBaseArtifacts ex_env ex_driver_bad_close ''http://a.test/'' ex_settings sA = (Inr b0, sB) \<and>
      loadBlank ex_driver_bad_close (defaultBlankPage ex_env) sB = (Inr u2, sC) \<and>
      invoke (Query GetBenchmarkIndex) (getBenchmarkIndex ex_driver_bad_close) sC = (Inr bi, sD) \<and>
      setupDriver ex_driver_bad_close ''http://a.test/'' ex_settings sD = (Inr u3, sE) \<and>
      run_passes ex_env ex_driver_bad_close ''http://a.test/'' ex_settings [ex_pass] True []
        (b0\<lparr>BenchmarkIndex := bi\<rparr>) sE = (Inr (res, bA), sF) \<and>
      (if \<not> disableStorageReset ex_settings
       then driver_command ex_driver_bad_close (ClearDataForOrigin ''http://a.test/'')
       else return ()) sF = (Inr u4, sG) \<and>
      disposeDriver ex_driver_bad_close sG = (Inl (Err ''TypeError''), sT)"
    by (simp add: ex_more_defs run_defs)
  then obtain u1 sA b0 sB u2 sC bi sD u3 sE res bA sF u4 sG sT where
    ch: "driver_command ex_driver_bad_close Connect ex_state = (Inr u1, sA)"
      "getBaseArtifacts ex_env ex_driver_bad_close ''http://a.test/'' ex_settings sA = (Inr b0, sB)"
      "loadBlank ex_driver_bad_close (defaultBlankPage ex_env) sB = (Inr u2, sC)"
      "invoke (Query GetBenchmarkIndex) (getBenchmarkIndex ex_driver_bad_close) sC = (Inr bi, sD)"
      "setupDriver ex_driver_bad_close ''http://a.test/'' ex_settings sD = (Inr u3, sE)"
      "run_passes ex_env ex_driver_bad_close ''http://a.test/'' ex_settings [ex_pass] True []
        (b0\<lparr>BenchmarkIndex := bi\<rparr>) sE = (Inr (res, bA), sF)"
      "(if \<not> disableStorageReset ex_settings
       then driver_command ex_driver_bad_close (ClearDataForOrigin ''http://a.test/'')
       else return ()) sF = (Inr u4, sG)"
      "disposeDriver ex_driver_bad_close sG = (Inl (Err ''TypeError''), sT)"
    by blast
  from T [where drv = ex_driver_bad_close and e = "Err ''TypeError''" and ?s1.0 = sT
        and ?u1.0 = u1 and sA = sA and ?b0.0 = b0 and sB = sB and ?u2.0 = u2 and sC = sC
        and bi = bi and sD = sD and ?u3.0 = u3 and sE = sE and res = res and bA = bA
        and sF = sF and ?u4.0 = u4 and sG = sG, THEN conjunct2, THEN conjunct1] ch
  have 5: "fst (run ex_env [ex_pass] ex_driver_bad_close ''http://a.test/'' ex_settings ex_state)
     = Inl (Err ''TypeError'')"
    by simp
  obtain arts s' where
    r: "run ex_env [ex_pass] ex_driver ''http://a.test/'' ex_settings ex_state = (Inr arts, s')"
    by (simp add: ex_defs run_defs)
  from T [where drv = ex_driver and arts = arts and s' = s',
          THEN conjunct2, THEN conjunct2, THEN conjunct2, THEN conjunct2, THEN conjunct2, THEN conjunct2, THEN conjunct2, THEN conjunct2, THEN conjunct2, THEN conjunct2, THEN conjunct2, THEN conjunct2, THEN conjunct2, THEN conjunct2, THEN conjunct2]
  have "run ex_env [ex_pass] ex_driver ''http://a.test/'' ex_settings ex_state = (Inr arts, s')
        \<longrightarrow> (\<exists>g b. run_try ex_env [ex_pass] ex_driver ''http://a.test/'' ex_settings ex_state
                     = (Inr (g, b), s'))"
    by blast
  with r obtain g b where
    "run_try ex_env [ex_pass] ex_driver ''http://a.test/'' ex_settings ex_state = (Inr (g, b), s')"
    by blast
  then have 6: "isl (fst (run_try ex_env [ex_pass] ex_driver ''http://a.test/'' ex_settings ex_state)) = False"
    by simp
  from r have 7: "isl (fst (run ex_env [ex_pass] ex_driver ''http://a.test/'' ex_settings ex_state)) = False"
    by simp
  have "\<exists>v1 t1 v2 t2 cB resB t3 v3 t4 sL.
      setupPassNetwork ex_driver_no_navigation ex_context ex_state = (Inr v1, t1) \<and>
      (if isPerfPass ex_context then driver_command ex_driver_no_navigation CleanBrowserCaches
       else return ()) t1 = (Inr v2, t2) \<and>
      beforePass ex_context [] t2 = (Inr (cB, resB), t3) \<and>
      beginRecording ex_driver_no_navigation cB t3 = (Inr v3, t4) \<and>
      loadPage ex_driver_no_navigation cB t4 = (Inl (Err ''navigation failed''), sL)"
    by (simp add: ex_more_defs ex_context_def ex_baseArtifacts_def run_defs)
  then obtain v1 t1 v2 t2 cB resB t3 v3 t4 sL where
    st: "setupPassNetwork ex_driver_no_navigation ex_context ex_state = (Inr v1, t1)"
      "(if isPerfPass ex_context then driver_command ex_driver_no_navigation CleanBrowserCaches
       else return ()) t1 = (Inr v2, t2)"
      "beforePass ex_context [] t2 = (Inr (cB, resB), t3)"
      "beginRecording ex_driver_no_navigation cB t3 = (Inr v3, t4)"
      "loadPage ex_driver_no_navigation cB t4 = (Inl (Err ''navigation failed''), sL)"
    by blast
  note P = run_rethrows_after_dispose [where env = ex_env and drv = ex_driver_no_navigation
      and requested = "''http://a.test/''" and stg = ex_settings and pc = ex_pass
      and ?bA0.0 = ex_baseArtifacts and ?s0.0 = ex_state and e = "Err ''navigation failed''"
      and ?s1.0 = sL and ?res0.0 = "[]"]
  from P [where c = ex_context and ?v1.0 = v1 and ?t1.0 = t1 and ?v2.0 = v2 and ?t2.0 = t2
        and cB = cB and resB = resB and ?t3.0 = t3 and ?v3.0 = v3 and ?t4.0 = t4,
        THEN conjunct2, THEN conjunct2, THEN conjunct2, THEN conjunct2, THEN conjunct2, THEN conjunct2, THEN conjunct2, THEN conjunct2, THEN conjunct2, THEN conjunct1] st
  have "runPass ex_env ex_driver_no_navigation ex_context ex_state
      = (Inl (Err ''navigation failed''), sL)"
    by blast
  with P [THEN conjunct2, THEN conjunct2, THEN conjunct2, THEN conjunct1]
  have "run_loop_body ex_env ex_driver_no_navigation ''http://a.test/'' ex_settings ex_pass True
          [] ex_baseArtifacts ex_state = (Inl (Err ''navigation failed''), sL)"
    by (simp add: ex_context_def)
  with P [where pre = "[]" and post = "[]" and isFirstPass = True and ?res1.0 = "[]"
        and ?bA1.0 = ex_baseArtifacts and ?s2.0 = ex_state, THEN conjunct2, THEN conjunct2, THEN conjunct1]
  have 8: "fst (run_passes ex_env ex_driver_no_navigation ''http://a.test/'' ex_settings [ex_pass]
             True [] ex_baseArtifacts ex_state) = Inl (Err ''navigation failed'')"
    by simp
  from 1 2 3 4 5 6 7 8 show ?thesis by simp
qed

section \<open>Hooks, phases and one pass\<close>

lemma await_then_Inr_iff:
  "await_then m f s = (Inr y, s') \<longleftrightarrow> (\<exists>x s1. m s = (Inr x, s1) \<and> f x s1 = (Inr y, s'))"
  by (auto simp: await_then_def split: prod.splits sum.splits)

lemma same_but_warnings_refl: "same_but_warnings c c"
  by (auto simp: same_but_warnings_def intro: exI [of _ "[]"])

lemma same_but_warnings_trans:
  "same_but_warnings a b \<Longrightarrow> same_but_warnings b c \<Longrightarrow> same_but_warnings a c"
proof -
  assume ab: "same_but_warnings a b" and bc: "same_but_warnings b c"
  from ab obtain ws1 where 1: "baseArtifacts b =
      (baseArtifacts a)\<lparr>LighthouseRunWarnings := LighthouseRunWarnings (baseArtifacts a) @ ws1\<rparr>"
    by (auto simp: same_but_warnings_def)
  from bc obtain ws2 where 2: "baseArtifacts c =
      (baseArtifacts b)\<lparr>LighthouseRunWarnings := LighthouseRunWarnings (baseArtifacts b) @ ws2\<rparr>"
    by (auto simp: same_but_warnings_def)
  from 1 2 have "baseArtifacts c =
      (baseArtifacts a)\<lparr>LighthouseRunWarnings := LighthouseRunWarnings (baseArtifacts a) @ (ws1 @ ws2)\<rparr>"
    by simp
  with ab bc show ?thesis unfolding same_but_warnings_def by metis
qed

lemma same_but_warnings_step:
  "same_but_warnings c (push_warnings ws (c\<lparr>ctx_options := opt\<rparr>))"
  by (auto simp: same_but_warnings_def push_warnings_def)

lemma same_but_warnings_url:
  "same_but_warnings c (c\<lparr>ctx_url := u\<rparr>) \<longleftrightarrow> u = ctx_url c"
  by (auto simp: same_but_warnings_def intro: exI [of _ "[]"])

lemma call_hook_result:
  "call_hook ph n h c s = ((p, c'), s') \<Longrightarrow>
   events s' = events s @ [HookCall ph n] \<and> c' = push_warnings (snd (fst (h (world s)))) c \<and>
   p = fst (fst (h (world s))) \<and> world s' = snd (h (world s))"
  by (auto simp: call_hook_def log_event_def split: prod.splits)

lemma beforePass_loop_events:
  "events (snd (beforePass_loop gs c res s)) = events s @ hook_calls BeforePassPhase gs"
proof (induction gs arbitrary: c res s)
  case Nil
  show ?case by (simp add: hook_calls_def)
next
  case (Cons gd gs)
  show ?case
    by (auto simp: Let_def hook_calls_def Cons.IH [unfolded hook_calls_def]
             split: prod.splits dest!: call_hook_result)
qed

lemma pass_loop_events:
  "events (snd (pass_loop gs c res s)) = events s @ hook_calls PassPhase gs"
proof (induction gs arbitrary: c res s)
  case Nil
  show ?case by (simp add: hook_calls_def)
next
  case (Cons gd gs)
  show ?case
    by (auto simp: Let_def hook_calls_def Cons.IH [unfolded hook_calls_def]
             split: prod.splits dest!: call_hook_result)
qed

lemma afterPass_loop_events:
  "events (snd (afterPass_loop gs ld c res s)) = events s @ hook_calls AfterPassPhase gs"
proof (induction gs arbitrary: c res s)
  case Nil
  show ?case by (simp add: hook_calls_def)
next
  case (Cons gd gs)
  show ?case
    by (auto simp: Let_def hook_calls_def Cons.IH [unfolded hook_calls_def]
             split: prod.splits dest!: call_hook_result)
qed

lemma beforePass_loop_frame:
  "beforePass_loop gs c res s = ((c', res'), s') \<Longrightarrow> same_but_warnings c c'"
proof (induction gs arbitrary: c res s)
  case Nil
  then show ?case by (simp add: same_but_warnings_refl)
next
  case (Cons gd gs)
  from Cons.prems obtain p c2 s2 where
    h: "call_hook BeforePassPhase (name (instance_of gd))
          (beforePass_hook (instance_of gd) (hook_view (c\<lparr>ctx_options := options gd\<rparr>)))
          (c\<lparr>ctx_options := options gd\<rparr>) s = ((p, c2), s2)"
    and r: "beforePass_loop gs c2 (obj_set (name (instance_of gd)) [p] res) s2 = ((c', res'), s')"
    by (auto simp: Let_def split: prod.splits)
  from call_hook_result [OF h] have "same_but_warnings c c2"
    by (auto simp: same_but_warnings_step)
  with Cons.IH [OF r] show ?case by (blast intro: same_but_warnings_trans)
qed

lemma pass_loop_frame:
  "pass_loop gs c res s = ((c', res'), s') \<Longrightarrow> same_but_warnings c c'"
proof (induction gs arbitrary: c res s)
  case Nil
  then show ?case by (simp add: same_but_warnings_refl)
next
  case (Cons gd gs)
  from Cons.prems obtain p c2 s2 where
    h: "call_hook PassPhase (name (instance_of gd))
          (pass_hook (instance_of gd) (hook_view (c\<lparr>ctx_options := options gd\<rparr>)))
          (c\<lparr>ctx_options := options gd\<rparr>) s = ((p, c2), s2)"
    and r: "pass_loop gs c2 (obj_set (name (instance_of gd))
              (history_of res (name (instance_of gd)) @ [p]) res) s2 = ((c', res'), s')"
    by (auto simp: Let_def split: prod.splits)
  from call_hook_result [OF h] have "same_but_warnings c c2"
    by (auto simp: same_but_warnings_step)
  with Cons.IH [OF r] show ?case by (blast intro: same_but_warnings_trans)
qed

lemma afterPass_loop_frame:
  "afterPass_loop gs ld c res s = ((c', res'), s') \<Longrightarrow> same_but_warnings c c'"
proof (induction gs arbitrary: c res s)
  case Nil
  then show ?case by (simp add: same_but_warnings_refl)
next
  case (Cons gd gs)
  from Cons.prems obtain p c2 s2 where
    h: "call_hook AfterPassPhase (name (instance_of gd))
          (afterPass_hook (instance_of gd) (hook_view (c\<lparr>ctx_options := options gd\<rparr>)) ld)
          (c\<lparr>ctx_options := options gd\<rparr>) s = ((p, c2), s2)"
    and r: "afterPass_loop gs ld c2 (obj_set (name (instance_of gd))
              (history_of res (name (instance_of gd)) @ [p]) res) s2 = ((c', res'), s')"
    by (auto simp: Let_def split: prod.splits)
  from call_hook_result [OF h] have "same_but_warnings c c2"
    by (auto simp: same_but_warnings_step)
  with Cons.IH [OF r] show ?case by (blast intro: same_but_warnings_trans)
qed

lemma beforePass_loop_append:
  "beforePass_loop (xs @ ys) c res s =
     (case beforePass_loop xs c res s of ((c1, res1), s1) \<Rightarrow> beforePass_loop ys c1 res1 s1)"
  by (induction xs arbitrary: c res s) (auto simp: Let_def split: prod.splits)

lemma beforePass_loop_other:
  "n \<notin> set (gatherer_names gs) \<Longrightarrow>
   obj_get (snd (fst (beforePass_loop gs c res s))) n = obj_get res n"
  by (induction gs arbitrary: c res s)
     (auto simp: Let_def gatherer_names_def obj_get_obj_set split: prod.splits)

lemma history_of_obj_set:
  "history_of (obj_set k v res) n = (if n = k then v else history_of res n)"
  by (simp add: history_of_def obj_get_obj_set)

lemma fillWithPageLoadErrors_loop_get:
  "obj_get (fillWithPageLoadErrors_loop gs err res) n =
     (if n \<in> set (gatherer_names gs)
      then Some (history_of res n @ replicate (count_list (gatherer_names gs) n) (Rejected (LHErr err)))
      else obj_get res n)"
proof (induction gs arbitrary: res)
  case Nil
  show ?case by (simp add: gatherer_names_def)
next
  case (Cons gd gs)
  show ?case
    using Cons.IH [of "obj_set (name (instance_of gd))
            (history_of res (name (instance_of gd)) @ [Rejected (LHErr err)]) res"]
    by (auto simp: Let_def gatherer_names_def obj_get_obj_set history_of_obj_set
          replicate_app_Cons_same)
qed

lemma driver_command_result:
  "driver_command drv c s = (r, s') \<Longrightarrow> events s' = events s @ [Command c]"
  by (auto simp: driver_command_def dest: invoke_result)

lemma driver_commands_result:
  "driver_commands drv cs s = (Inr u, s') \<Longrightarrow> events s' = events s @ map Command cs"
proof (induction cs arbitrary: s)
  case Nil
  then show ?case by simp
next
  case (Cons c cs)
  from Cons.prems obtain u1 s1 where 1: "driver_command drv c s = (Inr u1, s1)"
    and 2: "driver_commands drv cs s1 = (Inr u, s')"
    by (auto split: prod.splits sum.splits)
  from driver_command_result [OF 1] Cons.IH [OF 2] show ?case by simp
qed

lemma driver_gotoURL_result:
  "driver_gotoURL drv target opts s = (Inr final, s') \<Longrightarrow>
   events s' = events s @ [Query (GotoURL target opts), Navigated target opts final]"
  by (auto simp: driver_gotoURL_def await_then_Inr_iff log_event_def dest!: invoke_result)

lemma loadBlank_result:
  "loadBlank drv target s = (Inr u, s') \<Longrightarrow>
   \<exists>final. events s' = events s @ [Query (GotoURL target WaitForNavigated),
                                    Navigated target WaitForNavigated final]"
  by (auto simp: loadBlank_def await_then_Inr_iff return_def dest!: driver_gotoURL_result)

lemma loadPage_result:
  "loadPage drv c s = (Inr c', s') \<Longrightarrow>
   passConfig c' = passConfig c \<and> ctx_settings c' = ctx_settings c \<and>
   baseArtifacts c' = baseArtifacts c \<and>
   events s' = events s @
     [Query (GotoURL (ctx_url c) (WaitForLoad (recordTrace (passConfig c)))),
      Navigated (ctx_url c) (WaitForLoad (recordTrace (passConfig c))) (ctx_url c')]"
  by (auto simp: loadPage_def await_then_Inr_iff return_def dest!: driver_gotoURL_result)

lemma endRecording_result:
  "endRecording env drv c s = (Inr ld, s') \<Longrightarrow>
   networkRecords ld = recordsFromLogs env (devtoolsLog ld) \<and>
   (trace ld \<noteq> None \<longleftrightarrow> recordTrace (passConfig c)) \<and>
   events s' = events s @ (if recordTrace (passConfig c) then [Query EndTrace] else [])
                 @ [Query EndDevtoolsLog, LogEnded (devtoolsLog ld)]"
  by (auto simp: endRecording_def driver_endDevtoolsLog_def await_then_Inr_iff return_def
        log_event_def split: if_splits dest!: invoke_result)

lemma filter_hook_calls [simp]:
  "filter is_hook_call (hook_calls ph gs) = hook_calls ph gs"
  by (induction gs) (simp_all add: hook_calls_def)

lemma filter_observation_hook_calls [simp]:
  "filter is_observation (hook_calls ph gs) = []"
  by (induction gs) (simp_all add: hook_calls_def)

lemma filter_hook_call_commands [simp]:
  "filter is_hook_call (map Command cs) = []"
  by (induction cs) simp_all

lemma filter_observation_commands [simp]:
  "filter is_observation (map Command cs) = []"
  by (induction cs) simp_all

lemma beforePass_result:
  "beforePass c res s = (Inr x, s') \<Longrightarrow>
   same_but_warnings c (fst x) \<and>
   events s' = events s @ hook_calls BeforePassPhase (gatherers (passConfig c))"
  using beforePass_loop_events [of "gatherers (passConfig c)" c res s]
    beforePass_loop_frame [of "gatherers (passConfig c)" c res s "fst x" "snd x" s']
  by (auto simp: beforePass_def split: prod.splits)

lemma pass_result:
  "pass c res s = (Inr x, s') \<Longrightarrow>
   same_but_warnings c (fst x) \<and>
   events s' = events s @ hook_calls PassPhase (gatherers (passConfig c))"
  using pass_loop_events [of "gatherers (passConfig c)" c res s]
    pass_loop_frame [of "gatherers (passConfig c)" c res s "fst x" "snd x" s']
  by (auto simp: pass_def split: prod.splits)

lemma afterPass_result:
  "afterPass c ld res s = (Inr x, s') \<Longrightarrow>
   same_but_warnings c (fst x) \<and>
   events s' = events s @ hook_calls AfterPassPhase (gatherers (passConfig c))"
  using afterPass_loop_events [of "gatherers (passConfig c)" ld c res s]
    afterPass_loop_frame [of "gatherers (passConfig c)" ld c res s "fst x" "snd x" s']
  by (auto simp: afterPass_def split: prod.splits)

lemma runPass_until_check_steps:
  assumes "runPass_until_check env drv c s = (Inr (c1, res1, ld), s1)"
  obtains u1 sA u2 sB xB sC u3 sD cE sE xF sF sG u4 where
     "setupPassNetwork drv c s = (Inr u1, sA)"
     "(if isPerfPass c then driver_command drv CleanBrowserCaches else return ()) sA = (Inr u2, sB)"
     "beforePass c [] sB = (Inr xB, sC)"
     "beginRecording drv (fst xB) sC = (Inr u3, sD)"
     "loadPage drv (fst xB) sD = (Inr cE, sE)"
     "pass cE (snd xB) sE = (Inr xF, sF)"
     "endRecording env drv (fst xF) sF = (Inr ld, sG)"
     "driver_command drv (SetThrottling (ctx_settings (fst xF)) False) sG = (Inr u4, s1)"
     "c1 = (fst xF)\<lparr>baseArtifacts :=
        (case trace ld of
           Some t \<Rightarrow> (baseArtifacts (fst xF))
              \<lparr>devtoolsLogs := obj_set (passName (passConfig (fst xF))) (devtoolsLog ld)
                                 (devtoolsLogs (baseArtifacts (fst xF))),
               traces := obj_set (passName (passConfig (fst xF))) t
                           (traces (baseArtifacts (fst xF)))\<rparr>
         | None \<Rightarrow> (baseArtifacts (fst xF))
              \<lparr>devtoolsLogs := obj_set (passName (passConfig (fst xF))) (devtoolsLog ld)
                                 (devtoolsLogs (baseArtifacts (fst xF)))\<rparr>)\<rparr>"
     "res1 = snd xF"
proof -
  from assms have "\<exists>u1 sA u2 sB xB sC u3 sD cE sE xF sF sG u4.
     setupPassNetwork drv c s = (Inr u1, sA) \<and>
     (if isPerfPass c then driver_command drv CleanBrowserCaches else return ()) sA = (Inr u2, sB) \<and>
     beforePass c [] sB = (Inr xB, sC) \<and>
     beginRecording drv (fst xB) sC = (Inr u3, sD) \<and>
     loadPage drv (fst xB) sD = (Inr cE, sE) \<and>
     pass cE (snd xB) sE = (Inr xF, sF) \<and>
     endRecording env drv (fst xF) sF = (Inr ld, sG) \<and>
     driver_command drv (SetThrottling (ctx_settings (fst xF)) False) sG = (Inr u4, s1) \<and>
     c1 = (fst xF)\<lparr>baseArtifacts :=
        (case trace ld of
           Some t \<Rightarrow> (baseArtifacts (fst xF))
              \<lparr>devtoolsLogs := obj_set (passName (passConfig (fst xF))) (devtoolsLog ld)
                                 (devtoolsLogs (baseArtifacts (fst xF))),
               traces := obj_set (passName (passConfig (fst xF))) t
                           (traces (baseArtifacts (fst xF)))\<rparr>
         | None \<Rightarrow> (baseArtifacts (fst xF))
              \<lparr>devtoolsLogs := obj_set (passName (passConfig (fst xF))) (devtoolsLog ld)
                                 (devtoolsLogs (baseArtifacts (fst xF)))\<rparr>)\<rparr> \<and>
     res1 = snd xF"
    unfolding runPass_until_check_def await_then_Inr_iff split_def Let_def return_def
    by (cases "trace ld") auto
  then show ?thesis using that by blast
qed

lemma setupPassNetwork_result:
  "setupPassNetwork drv c s = (Inr u, s') \<Longrightarrow> \<exists>cs. events s' = events s @ map Command cs"
  unfolding setupPassNetwork_def Let_def by (blast dest: driver_commands_result)

lemma beginRecording_result:
  "beginRecording drv c s = (Inr u, s') \<Longrightarrow> \<exists>cs. events s' = events s @ map Command cs"
  unfolding beginRecording_def by (blast dest: driver_commands_result)

lemma setupDriver_result:
  "setupDriver drv requested stg s = (Inr u, s') \<Longrightarrow>
   \<exists>cs. events s' = events s @ map Command cs"
  unfolding setupDriver_def Let_def by (blast dest: driver_commands_result)

lemma same_but_warningsD:
  assumes "same_but_warnings c c'"
  shows "ctx_url c' = ctx_url c" and "ctx_settings c' = ctx_settings c"
    and "passConfig c' = passConfig c"
    and "URL (baseArtifacts c') = URL (baseArtifacts c)"
    and "NetworkUserAgent (baseArtifacts c') = NetworkUserAgent (baseArtifacts c)"
    and "devtoolsLogs (baseArtifacts c') = devtoolsLogs (baseArtifacts c)"
  using assms by (auto simp: same_but_warnings_def)

lemma runPass_until_check_result:
  assumes "runPass_until_check env drv c s = (Inr (c1, res1, ld), s1)"
  shows "\<exists>evs. events s1 = events s @ evs \<and>
           filter is_hook_call evs =
             hook_calls BeforePassPhase (gatherers (passConfig c))
             @ hook_calls PassPhase (gatherers (passConfig c)) \<and>
           filter is_observation evs =
             [Navigated (ctx_url c) (WaitForLoad (recordTrace (passConfig c))) (ctx_url c1),
              LogEnded (devtoolsLog ld)]"
    and "passConfig c1 = passConfig c"
    and "ctx_settings c1 = ctx_settings c"
    and "networkRecords ld = recordsFromLogs env (devtoolsLog ld)"
    and "obj_get (devtoolsLogs (baseArtifacts c1)) (passName (passConfig c)) = Some (devtoolsLog ld)"
    and "URL (baseArtifacts c1) = URL (baseArtifacts c)"
    and "NetworkUserAgent (baseArtifacts c1) = NetworkUserAgent (baseArtifacts c)"
proof -
  from assms obtain u1 sA u2 sB xB sC u3 sD cE sE xF sF sG u4 where
    st: "setupPassNetwork drv c s = (Inr u1, sA)"
     "(if isPerfPass c then driver_command drv CleanBrowserCaches else return ()) sA = (Inr u2, sB)"
     "beforePass c [] sB = (Inr xB, sC)"
     "beginRecording drv (fst xB) sC = (Inr u3, sD)"
     "loadPage drv (fst xB) sD = (Inr cE, sE)"
     "pass cE (snd xB) sE = (Inr xF, sF)"
     "endRecording env drv (fst xF) sF = (Inr ld, sG)"
     "driver_command drv (SetThrottling (ctx_settings (fst xF)) False) sG = (Inr u4, s1)"
    and c1: "c1 = (fst xF)\<lparr>baseArtifacts :=
        (case trace ld of
           Some t \<Rightarrow> (baseArtifacts (fst xF))
              \<lparr>devtoolsLogs := obj_set (passName (passConfig (fst xF))) (devtoolsLog ld)
                                 (devtoolsLogs (baseArtifacts (fst xF))),
               traces := obj_set (passName (passConfig (fst xF))) t
                           (traces (baseArtifacts (fst xF)))\<rparr>
         | None \<Rightarrow> (baseArtifacts (fst xF))
              \<lparr>devtoolsLogs := obj_set (passName (passConfig (fst xF))) (devtoolsLog ld)
                                 (devtoolsLogs (baseArtifacts (fst xF)))\<rparr>)\<rparr>"
    by (rule runPass_until_check_steps)
  from st(1) obtain evA where eA: "events sA = events s @ map Command evA"
    by (blast dest: setupPassNetwork_result)
  from st(2) obtain evB where eB: "events sB = events sA @ map Command evB"
  proof (cases "isPerfPass c")
    case True
    with st(2) have "events sB = events sA @ map Command [CleanBrowserCaches]"
      by (auto dest: driver_command_result)
    then show ?thesis by (rule that)
  next
    case False
    with st(2) have "events sB = events sA @ map Command []" by (simp add: return_def)
    then show ?thesis by (rule that)
  qed
  note B = beforePass_result [OF st(3)]
  from B have fB: "same_but_warnings c (fst xB)" by simp
  note pB = same_but_warningsD [OF fB]
  from B have eC: "events sC = events sB @ hook_calls BeforePassPhase (gatherers (passConfig c))"
    by simp
  from st(4) obtain evD where eD: "events sD = events sC @ map Command evD"
    by (blast dest: beginRecording_result)
  note L = loadPage_result [OF st(5)]
  from L pB have eE: "events sE = events sD @
     [Query (GotoURL (ctx_url c) (WaitForLoad (recordTrace (passConfig c)))),
      Navigated (ctx_url c) (WaitForLoad (recordTrace (passConfig c))) (ctx_url cE)]"
    by simp
  note P = pass_result [OF st(6)]
  from P have fF: "same_but_warnings cE (fst xF)" by simp
  note pF = same_but_warningsD [OF fF]
  from P L pB have eF: "events sF = events sE @ hook_calls PassPhase (gatherers (passConfig c))"
    by simp
  note R = endRecording_result [OF st(7)]
  obtain evG where eG: "events sG = events sF @ map Query evG
      @ [Query EndDevtoolsLog, LogEnded (devtoolsLog ld)]"
  proof (cases "recordTrace (passConfig (fst xF))")
    case True
    with R have "events sG = events sF @ map Query [EndTrace]
        @ [Query EndDevtoolsLog, LogEnded (devtoolsLog ld)]" by simp
    then show ?thesis by (rule that)
  next
    case False
    with R have "events sG = events sF @ map Query []
        @ [Query EndDevtoolsLog, LogEnded (devtoolsLog ld)]" by simp
    then show ?thesis by (rule that)
  qed
  from driver_command_result [OF st(8)]
  have e1: "events s1 = events sG @ [Command (SetThrottling (ctx_settings (fst xF)) False)]" .
  have q: "filter is_hook_call (map Query evG) = []" "filter is_observation (map Query evG) = []"
    by (induction evG) simp_all
  from c1 have u: "ctx_url c1 = ctx_url cE" using pF by simp
  let ?evs = "map Command evA @ map Command evB
      @ hook_calls BeforePassPhase (gatherers (passConfig c)) @ map Command evD
      @ [Query (GotoURL (ctx_url c) (WaitForLoad (recordTrace (passConfig c)))),
         Navigated (ctx_url c) (WaitForLoad (recordTrace (passConfig c))) (ctx_url cE)]
      @ hook_calls PassPhase (gatherers (passConfig c)) @ map Query evG
      @ [Query EndDevtoolsLog, LogEnded (devtoolsLog ld)]
      @ [Command (SetThrottling (ctx_settings (fst xF)) False)]"
  have "events s1 = events s @ ?evs"
    using eA eB eC eD eE eF eG e1 by simp
  moreover have "filter is_hook_call ?evs =
      hook_calls BeforePassPhase (gatherers (passConfig c))
      @ hook_calls PassPhase (gatherers (passConfig c))"
    by (simp add: q)
  moreover have "filter is_observation ?evs =
      [Navigated (ctx_url c) (WaitForLoad (recordTrace (passConfig c))) (ctx_url c1),
       LogEnded (devtoolsLog ld)]"
    by (simp add: q u)
  ultimately show "\<exists>evs. events s1 = events s @ evs \<and>
           filter is_hook_call evs =
             hook_calls BeforePassPhase (gatherers (passConfig c))
             @ hook_calls PassPhase (gatherers (passConfig c)) \<and>
           filter is_observation evs =
             [Navigated (ctx_url c) (WaitForLoad (recordTrace (passConfig c))) (ctx_url c1),
              LogEnded (devtoolsLog ld)]"
    by blast
  from c1 pF L pB show pc: "passConfig c1 = passConfig c" by simp
  from c1 pF L pB show "ctx_settings c1 = ctx_settings c" by simp
  from R show "networkRecords ld = recordsFromLogs env (devtoolsLog ld)" by simp
  from pF L pB have pcF: "passConfig (fst xF) = passConfig c" by simp
  from c1 pcF show "obj_get (devtoolsLogs (baseArtifacts c1)) (passName (passConfig c)) = Some (devtoolsLog ld)"
    by (cases "trace ld") (simp_all add: obj_get_obj_set)
  from c1 pF L pB show "URL (baseArtifacts c1) = URL (baseArtifacts c)"
    by (cases "trace ld") simp_all
  from c1 pF L pB show "NetworkUserAgent (baseArtifacts c1) = NetworkUserAgent (baseArtifacts c)"
    by (cases "trace ld") simp_all
qed

lemma runPass_Inr_cases:
  assumes "runPass env drv c s = (Inr (res', c'), s')"
  obtains (failed) c1 res1 ld err where
      "runPass_until_check env drv c s = (Inr (c1, res1, ld), s')"
      "online drv (world s')"
      "getPageLoadError (equalWithExcludedFragments env) (hasErrorStatusCode env)
         (ctx_url c1) (networkRecords ld) = Some err"
      "c' = push_warnings [friendlyMessage env err] c1"
      "res' = fillWithPageLoadErrors c' err res1"
    | (loaded) c1 res1 ld s1 where
      "runPass_until_check env drv c s = (Inr (c1, res1, ld), s1)"
      "afterPass c1 ld res1 s1 = (Inr (c', res'), s')"
      "\<not> online drv (world s1) \<or>
       getPageLoadError (equalWithExcludedFragments env) (hasErrorStatusCode env)
         (ctx_url c1) (networkRecords ld) = None"
proof -
  from assms obtain x s1 where u: "runPass_until_check env drv c s = (Inr x, s1)"
    and k: "(case x of (passContext1, gathererResults, loadData) \<Rightarrow> \<lambda>s.
          (let pageLoadError0 =
                 getPageLoadError (equalWithExcludedFragments env) (hasErrorStatusCode env)
                   (ctx_url passContext1) (networkRecords loadData);
               pageLoadError = (if \<not> online drv (world s) then None else pageLoadError0)
           in case pageLoadError of
                None \<Rightarrow>
                  await_then (afterPass passContext1 loadData gathererResults)
                    (\<lambda>(passContext2, gathererResults1). return (gathererResults1, passContext2)) s
              | Some err \<Rightarrow>
                  (let passContext2 = push_warnings [friendlyMessage env err] passContext1
                   in (Inr (fillWithPageLoadErrors passContext2 err gathererResults,
                            passContext2), s)))) s1 = (Inr (res', c'), s')"
    unfolding runPass_def by (rule await_then_InrE)
  obtain c1 res1 ld where x: "x = (c1, res1, ld)" by (cases x)
  show ?thesis
  proof (cases "if \<not> online drv (world s1) then None
        else getPageLoadError (equalWithExcludedFragments env) (hasErrorStatusCode env)
               (ctx_url c1) (networkRecords ld)")
    case None
    with k x have a: "afterPass c1 ld res1 s1 = (Inr (c', res'), s')"
      by (auto simp: Let_def await_then_Inr_iff return_def)
    from u x have u': "runPass_until_check env drv c s = (Inr (c1, res1, ld), s1)" by simp
    from None have n: "\<not> online drv (world s1) \<or>
       getPageLoadError (equalWithExcludedFragments env) (hasErrorStatusCode env)
         (ctx_url c1) (networkRecords ld) = None"
      by (auto split: if_splits)
    from u' a n show ?thesis by (rule loaded)
  next
    case (Some err)
    then have o: "online drv (world s1)"
      and g: "getPageLoadError (equalWithExcludedFragments env) (hasErrorStatusCode env)
               (ctx_url c1) (networkRecords ld) = Some err"
      by (auto split: if_splits)
    from k x Some have e: "s' = s1" and c': "c' = push_warnings [friendlyMessage env err] c1"
      and r': "res' = fillWithPageLoadErrors c' err res1"
      by (auto simp: Let_def)
    from u x e have u': "runPass_until_check env drv c s = (Inr (c1, res1, ld), s')" by simp
    from o e have o': "online drv (world s')" by simp
    from u' o' g c' r' show ?thesis by (rule failed)
  qed
qed

lemma push_warnings_fields:
  "ctx_url (push_warnings ws c) = ctx_url c"
  "passConfig (push_warnings ws c) = passConfig c"
  "URL (baseArtifacts (push_warnings ws c)) = URL (baseArtifacts c)"
  "NetworkUserAgent (baseArtifacts (push_warnings ws c)) = NetworkUserAgent (baseArtifacts c)"
  "devtoolsLogs (baseArtifacts (push_warnings ws c)) = devtoolsLogs (baseArtifacts c)"
  "LighthouseRunWarnings (baseArtifacts (push_warnings ws c))
     = LighthouseRunWarnings (baseArtifacts c) @ ws"
  by (simp_all add: push_warnings_def)

lemma runPass_result:
  assumes "runPass env drv c s = (Inr (res', c'), s')"
  shows "\<exists>evs tail ld. events s' = events s @ evs \<and>
           filter is_hook_call evs =
             hook_calls BeforePassPhase (gatherers (passConfig c))
             @ hook_calls PassPhase (gatherers (passConfig c)) @ tail \<and>
           (tail = [] \<or> tail = hook_calls AfterPassPhase (gatherers (passConfig c))) \<and>
           filter is_observation evs =
             [Navigated (ctx_url c) (WaitForLoad (recordTrace (passConfig c))) (ctx_url c'),
              LogEnded ld] \<and>
           obj_get (devtoolsLogs (baseArtifacts c')) (passName (passConfig c)) = Some ld"
    and "URL (baseArtifacts c') = URL (baseArtifacts c)"
    and "NetworkUserAgent (baseArtifacts c') = NetworkUserAgent (baseArtifacts c)"
proof -
  have "(\<exists>evs tail ld. events s' = events s @ evs \<and>
           filter is_hook_call evs =
             hook_calls BeforePassPhase (gatherers (passConfig c))
             @ hook_calls PassPhase (gatherers (passConfig c)) @ tail \<and>
           (tail = [] \<or> tail = hook_calls AfterPassPhase (gatherers (passConfig c))) \<and>
           filter is_observation evs =
             [Navigated (ctx_url c) (WaitForLoad (recordTrace (passConfig c))) (ctx_url c'),
              LogEnded ld] \<and>
           obj_get (devtoolsLogs (baseArtifacts c')) (passName (passConfig c)) = Some ld)
     \<and> URL (baseArtifacts c') = URL (baseArtifacts c)
     \<and> NetworkUserAgent (baseArtifacts c') = NetworkUserAgent (baseArtifacts c)"
    using assms
  proof (cases rule: runPass_Inr_cases)
    case (failed c1 res1 ld err)
    note U = runPass_until_check_result [OF failed(1)]
    from U(1) obtain evs where "events s' = events s @ evs"
      "filter is_hook_call evs = hook_calls BeforePassPhase (gatherers (passConfig c))
             @ hook_calls PassPhase (gatherers (passConfig c)) @ []"
      "filter is_observation evs =
             [Navigated (ctx_url c) (WaitForLoad (recordTrace (passConfig c))) (ctx_url c1),
              LogEnded (devtoolsLog ld)]"
      by auto
    with U(2-) failed(4) show ?thesis
      by (simp add: push_warnings_fields)
  next
    case (loaded c1 res1 ld s1)
    note U = runPass_until_check_result [OF loaded(1)]
    note A = afterPass_result [OF loaded(2)]
    from A have f: "same_but_warnings c1 c'" by simp
    note p = same_but_warningsD [OF f]
    from U(1) obtain evs where e: "events s1 = events s @ evs"
      "filter is_hook_call evs = hook_calls BeforePassPhase (gatherers (passConfig c))
             @ hook_calls PassPhase (gatherers (passConfig c))"
      "filter is_observation evs =
             [Navigated (ctx_url c) (WaitForLoad (recordTrace (passConfig c))) (ctx_url c1),
              LogEnded (devtoolsLog ld)]"
      by auto
    let ?evs = "evs @ hook_calls AfterPassPhase (gatherers (passConfig c))"
    from A e U(2) have 1: "events s' = events s @ ?evs" by simp
    from e have 2: "filter is_hook_call ?evs =
        hook_calls BeforePassPhase (gatherers (passConfig c))
        @ hook_calls PassPhase (gatherers (passConfig c))
        @ hook_calls AfterPassPhase (gatherers (passConfig c))" by simp
    from e p have 3: "filter is_observation ?evs =
        [Navigated (ctx_url c) (WaitForLoad (recordTrace (passConfig c))) (ctx_url c'),
         LogEnded (devtoolsLog ld)]" by simp
    from U p have 4: "obj_get (devtoolsLogs (baseArtifacts c')) (passName (passConfig c))
        = Some (devtoolsLog ld)" by simp
    from 1 2 3 4 U p show ?thesis by (simp del: filter_append)
  qed
  then show "\<exists>evs tail ld. events s' = events s @ evs \<and>
           filter is_hook_call evs =
             hook_calls BeforePassPhase (gatherers (passConfig c))
             @ hook_calls PassPhase (gatherers (passConfig c)) @ tail \<and>
           (tail = [] \<or> tail = hook_calls AfterPassPhase (gatherers (passConfig c))) \<and>
           filter is_observation evs =
             [Navigated (ctx_url c) (WaitForLoad (recordTrace (passConfig c))) (ctx_url c'),
              LogEnded ld] \<and>
           obj_get (devtoolsLogs (baseArtifacts c')) (passName (passConfig c)) = Some ld"
    and "URL (baseArtifacts c') = URL (baseArtifacts c)"
    and "NetworkUserAgent (baseArtifacts c') = NetworkUserAgent (baseArtifacts c)"
    by blast+
qed

lemma runner_state_updates:
  fixes s :: "'w runner_state"
  shows "s\<lparr>events := e, world := w\<rparr> = \<lparr>world = w, events = e\<rparr>"
  by (cases s) simp

lemma pass_loop_append:
  "pass_loop (xs @ ys) c res s =
     (case pass_loop xs c res s of ((c1, res1), s1) \<Rightarrow> pass_loop ys c1 res1 s1)"
  by (induction xs arbitrary: c res s) (auto simp: Let_def split: prod.splits)

lemma afterPass_loop_append:
  "afterPass_loop (xs @ ys) ld c res s =
     (case afterPass_loop xs ld c res s of ((c1, res1), s1) \<Rightarrow> afterPass_loop ys ld c1 res1 s1)"
  by (induction xs arbitrary: c res s) (auto simp: Let_def split: prod.splits)

lemma beforePass_loop_step:
  "(beforePass_loop pre c res s = ((c1, res1), s1) \<and>
        beforePass_hook (instance_of gd) (hook_view (c1\<lparr>ctx_options := options gd\<rparr>)) (world s1)
          = ((p, ws), w2) \<longrightarrow>
        beforePass_loop (pre @ gd # post) c res s =
          beforePass_loop post (push_warnings ws (c1\<lparr>ctx_options := options gd\<rparr>))
            (obj_set (name (instance_of gd)) [p] res1)
            \<lparr>world = w2, events = events s1 @ [HookCall BeforePassPhase (name (instance_of gd))]\<rparr>)"
  by (simp add: beforePass_loop_append Let_def call_hook_def log_event_def runner_state_updates)

lemma pass_loop_step:
  "(pass_loop pre c res s = ((c1, res1), s1) \<and>
        pass_hook (instance_of gd) (hook_view (c1\<lparr>ctx_options := options gd\<rparr>)) (world s1)
          = ((p, ws), w2) \<longrightarrow>
        pass_loop (pre @ gd # post) c res s =
          pass_loop post (push_warnings ws (c1\<lparr>ctx_options := options gd\<rparr>))
            (obj_set (name (instance_of gd)) (history_of res1 (name (instance_of gd)) @ [p]) res1)
            \<lparr>world = w2, events = events s1 @ [HookCall PassPhase (name (instance_of gd))]\<rparr>)"
  by (simp add: pass_loop_append Let_def call_hook_def log_event_def runner_state_updates)

lemma afterPass_loop_step:
  "(afterPass_loop pre ld c res s = ((c1, res1), s1) \<and>
        afterPass_hook (instance_of gd) (hook_view (c1\<lparr>ctx_options := options gd\<rparr>)) ld (world s1)
          = ((p, ws), w2) \<longrightarrow>
        afterPass_loop (pre @ gd # post) ld c res s =
          afterPass_loop post ld (push_warnings ws (c1\<lparr>ctx_options := options gd\<rparr>))
            (obj_set (name (instance_of gd)) (history_of res1 (name (instance_of gd)) @ [p]) res1)
            \<lparr>world = w2, events = events s1 @ [HookCall AfterPassPhase (name (instance_of gd))]\<rparr>)"
  by (simp add: afterPass_loop_append Let_def call_hook_def log_event_def runner_state_updates)

lemma runPass_until_check_reached:
  "(setupPassNetwork drv c s = (Inr v1, tA) \<and>
        (if isPerfPass c then driver_command drv CleanBrowserCaches else return ()) tA
          = (Inr v2, tB) \<and>
        beforePass_loop (gatherers (passConfig c)) c [] tB = ((cB, resB), tC) \<and>
        beginRecording drv cB tC = (Inr v3, tD) \<and>
        loadPage drv cB tD = (Inr cE, tE) \<and>
        pass_loop (gatherers (passConfig c)) cE resB tE = ((cF, resF), tF) \<and>
        endRecording env drv cF tF = (Inr ld, tG) \<and>
        driver_command drv (SetThrottling (ctx_settings cF) False) tG = (Inr v4, tH) \<longrightarrow>
        (\<exists>cH. runPass_until_check env drv c s = (Inr (cH, resF, ld), tH) \<and>
              ctx_url cH = ctx_url cE \<and> passConfig cH = passConfig c))"
proof (intro impI, elim conjE)
  assume st: "setupPassNetwork drv c s = (Inr v1, tA)"
    "(if isPerfPass c then driver_command drv CleanBrowserCaches else return ()) tA = (Inr v2, tB)"
    "beforePass_loop (gatherers (passConfig c)) c [] tB = ((cB, resB), tC)"
    "beginRecording drv cB tC = (Inr v3, tD)"
    "loadPage drv cB tD = (Inr cE, tE)"
    "pass_loop (gatherers (passConfig c)) cE resB tE = ((cF, resF), tF)"
    "endRecording env drv cF tF = (Inr ld, tG)"
    "driver_command drv (SetThrottling (ctx_settings cF) False) tG = (Inr v4, tH)"
  note pB = same_but_warningsD [OF beforePass_loop_frame [OF st(3)]]
  note L = loadPage_result [OF st(5)]
  note pF = same_but_warningsD [OF pass_loop_frame [OF st(6)]]
  from L pB have pcE: "passConfig cE = passConfig c" by simp
  from st(3) have b: "beforePass c [] tB = (Inr (cB, resB), tC)"
    by (simp add: beforePass_def)
  from st(6) pcE have q: "pass cE resB tE = (Inr (cF, resF), tF)"
    by (simp add: pass_def)
  from st(1,2,4,5,7,8) b q pF pcE
  show "\<exists>cH. runPass_until_check env drv c s = (Inr (cH, resF, ld), tH) \<and>
              ctx_url cH = ctx_url cE \<and> passConfig cH = passConfig c"
    by (simp add: runPass_until_check_def await_then_def Let_def return_def)
qed

lemma runPass_until_check_inverse:
  "(runPass_until_check env drv c s = (Inr (cH, resF, ld), tH) \<longrightarrow>
        (\<exists>v1 tA v2 tB cB resB tC v3 tD cE tE cF tF tG v4.
           setupPassNetwork drv c s = (Inr v1, tA) \<and>
           (if isPerfPass c then driver_command drv CleanBrowserCaches else return ()) tA
             = (Inr v2, tB) \<and>
           beforePass_loop (gatherers (passConfig c)) c [] tB = ((cB, resB), tC) \<and>
           beginRecording drv cB tC = (Inr v3, tD) \<and>
           loadPage drv cB tD = (Inr cE, tE) \<and>
           pass_loop (gatherers (passConfig c)) cE resB tE = ((cF, resF), tF) \<and>
           endRecording env drv cF tF = (Inr ld, tG) \<and>
           driver_command drv (SetThrottling (ctx_settings cF) False) tG = (Inr v4, tH)))"
proof
  assume "runPass_until_check env drv c s = (Inr (cH, resF, ld), tH)"
  then obtain u1 sA u2 sB xB sC u3 sD cE sE xF sF sG u4 where
    st: "setupPassNetwork drv c s = (Inr u1, sA)"
     "(if isPerfPass c then driver_command drv CleanBrowserCaches else return ()) sA = (Inr u2, sB)"
     "beforePass c [] sB = (Inr xB, sC)"
     "beginRecording drv (fst xB) sC = (Inr u3, sD)"
     "loadPage drv (fst xB) sD = (Inr cE, sE)"
     "pass cE (snd xB) sE = (Inr xF, sF)"
     "endRecording env drv (fst xF) sF = (Inr ld, sG)"
     "driver_command drv (SetThrottling (ctx_settings (fst xF)) False) sG = (Inr u4, tH)"
    and r: "resF = snd xF"
    by (rule runPass_until_check_steps)
  from st(3) have b: "beforePass_loop (gatherers (passConfig c)) c [] sB = ((fst xB, snd xB), sC)"
    by (auto simp: beforePass_def split: prod.splits)
  note pB = same_but_warningsD [OF beforePass_loop_frame [OF b]]
  note L = loadPage_result [OF st(5)]
  from L pB have pcE: "passConfig cE = passConfig c" by simp
  from st(6) pcE r
  have q: "pass_loop (gatherers (passConfig c)) cE (snd xB) sE = ((fst xF, resF), sF)"
    by (auto simp: pass_def split: prod.splits)
  from st(1,2) b st(4,5) q st(7,8)
  show "\<exists>v1 tA v2 tB cB resB tC v3 tD cE tE cF tF tG v4.
           setupPassNetwork drv c s = (Inr v1, tA) \<and>
           (if isPerfPass c then driver_command drv CleanBrowserCaches else return ()) tA
             = (Inr v2, tB) \<and>
           beforePass_loop (gatherers (passConfig c)) c [] tB = ((cB, resB), tC) \<and>
           beginRecording drv cB tC = (Inr v3, tD) \<and>
           loadPage drv cB tD = (Inr cE, tE) \<and>
           pass_loop (gatherers (passConfig c)) cE resB tE = ((cF, resF), tF) \<and>
           endRecording env drv cF tF = (Inr ld, tG) \<and>
           driver_command drv (SetThrottling (ctx_settings cF) False) tG = (Inr v4, tH)"
    by blast
qed

lemma runPass_page_loaded:
  "(runPass_until_check env drv c s = (Inr (cH, resF, ld), tH) \<and>
        (\<not> online drv (world tH) \<or>
         getPageLoadError (equalWithExcludedFragments env) (hasErrorStatusCode env)
            (ctx_url cH) (networkRecords ld) = None) \<and>
        afterPass_loop (gatherers (passConfig c)) ld cH resF tH = ((c', res'), s') \<longrightarrow>
        runPass env drv c s = (Inr (res', c'), s'))"
proof (intro impI, elim conjE)
  assume u: "runPass_until_check env drv c s = (Inr (cH, resF, ld), tH)"
    and ok: "\<not> online drv (world tH) \<or>
         getPageLoadError (equalWithExcludedFragments env) (hasErrorStatusCode env)
            (ctx_url cH) (networkRecords ld) = None"
    and a: "afterPass_loop (gatherers (passConfig c)) ld cH resF tH = ((c', res'), s')"
  from runPass_until_check_result(2) [OF u] have "passConfig cH = passConfig c" .
  with a have "afterPass cH ld resF tH = (Inr (c', res'), s')"
    by (simp add: afterPass_def)
  with u ok show "runPass env drv c s = (Inr (res', c'), s')"
    by (auto simp: runPass_def await_then_def return_def Let_def)
qed

lemma runPass_hook_calls:
  "(runPass env drv c s = (Inr (res', c'), s') \<longrightarrow>
        (\<exists>cH resF ld tH evs.
           runPass_until_check env drv c s = (Inr (cH, resF, ld), tH) \<and>
           events s' = events s @ evs \<and>
           filter is_hook_call evs =
             hook_calls BeforePassPhase (gatherers (passConfig c))
             @ hook_calls PassPhase (gatherers (passConfig c))
             @ (if online drv (world tH) \<and>
                   getPageLoadError (equalWithExcludedFragments env) (hasErrorStatusCode env)
                     (ctx_url cH) (networkRecords ld) \<noteq> None
                then [] else hook_calls AfterPassPhase (gatherers (passConfig c))) \<and>
           (if online drv (world tH) \<and>
               getPageLoadError (equalWithExcludedFragments env) (hasErrorStatusCode env)
                 (ctx_url cH) (networkRecords ld) \<noteq> None
            then s' = tH
            else afterPass_loop (gatherers (passConfig c)) ld cH resF tH = ((c', res'), s'))))"
proof
  assume "runPass env drv c s = (Inr (res', c'), s')"
  then show "\<exists>cH resF ld tH evs.
           runPass_until_check env drv c s = (Inr (cH, resF, ld), tH) \<and>
           events s' = events s @ evs \<and>
           filter is_hook_call evs =
             hook_calls BeforePassPhase (gatherers (passConfig c))
             @ hook_calls PassPhase (gatherers (passConfig c))
             @ (if online drv (world tH) \<and>
                   getPageLoadError (equalWithExcludedFragments env) (hasErrorStatusCode env)
                     (ctx_url cH) (networkRecords ld) \<noteq> None
                then [] else hook_calls AfterPassPhase (gatherers (passConfig c))) \<and>
           (if online drv (world tH) \<and>
               getPageLoadError (equalWithExcludedFragments env) (hasErrorStatusCode env)
                 (ctx_url cH) (networkRecords ld) \<noteq> None
            then s' = tH
            else afterPass_loop (gatherers (passConfig c)) ld cH resF tH = ((c', res'), s'))"
  proof (cases rule: runPass_Inr_cases)
    case (failed c1 res1 ld err)
    note U = runPass_until_check_result [OF failed(1)]
    from U(1) obtain evs where "events s' = events s @ evs"
      "filter is_hook_call evs = hook_calls BeforePassPhase (gatherers (passConfig c))
             @ hook_calls PassPhase (gatherers (passConfig c))"
      by auto
    with failed(1,2,3) show ?thesis by (intro exI [of _ c1] exI [of _ res1] exI [of _ ld]
          exI [of _ s'] exI [of _ evs]) simp
  next
    case (loaded c1 res1 ld s1)
    note U = runPass_until_check_result [OF loaded(1)]
    note A = afterPass_result [OF loaded(2)]
    from U(1) obtain evs where e: "events s1 = events s @ evs"
      "filter is_hook_call evs = hook_calls BeforePassPhase (gatherers (passConfig c))
             @ hook_calls PassPhase (gatherers (passConfig c))"
      by auto
    from loaded(2) U(2)
    have al: "afterPass_loop (gatherers (passConfig c)) ld c1 res1 s1 = ((c', res'), s')"
      by (auto simp: afterPass_def split: prod.splits)
    have nf: "\<not> (online drv (world s1) \<and>
        getPageLoadError (equalWithExcludedFragments env) (hasErrorStatusCode env)
          (ctx_url c1) (networkRecords ld) \<noteq> None)"
      using loaded(3) by auto
    from A e U(2) have "events s' = events s @ (evs @ hook_calls AfterPassPhase (gatherers (passConfig c)))"
      by simp
    with e(2) al nf loaded(1) show ?thesis
      by (intro exI [of _ c1] exI [of _ res1] exI [of _ ld] exI [of _ s1]
          exI [of _ "evs @ hook_calls AfterPassPhase (gatherers (passConfig c))"]) auto
  qed
qed

section \<open>Isolation of the hooks\<close>

text \<open>
  C9. Each phase loop calls the hook of every gatherer of the pass, in configured order,
  whatever the hooks before it did: the events of a phase are exactly the hook calls of
  its gatherers. A \<^verbatim>\<open>beforePass\<close> hook that rejects has its rejection stored as the
  history of its gatherer (provided no later gatherer of the pass bears the same name),
  and the loop goes on. More precisely, for a gatherer anywhere in the list, each of the
  three loops, having run the gatherers before it with whatever outcomes, applies the hook
  of that gatherer to the world it has reached, records the call, stores the outcome
  (resolved or rejected) at the end of the history of the gatherer (as its whole history
  in \<^verbatim>\<open>beforePass\<close>), adds the warnings, and goes on with the gatherers after it.
  For the \<^verbatim>\<open>pass\<close> and \<^verbatim>\<open>afterPass\<close> loops taken alone this is stated on
  results whose histories can be read (\<open>history_readable\<close>), as they always can
  inside \<^verbatim>\<open>runPass\<close>.
  \<^verbatim>\<open>runPass\<close> reaches its check for load errors whenever its driver steps succeed,
  through the \<^verbatim>\<open>beforePass\<close> loop and then the \<^verbatim>\<open>pass\<close> loop over all
  gatherers, with no condition on the outcome of any hook, and only so. From the check,
  unless the driver is online and the classifier reports a page-load error (see C2), it
  runs the \<^verbatim>\<open>afterPass\<close> loop over all gatherers and returns what that loop
  leaves. Whenever \<^verbatim>\<open>runPass\<close> returns, its hook calls are the \<^verbatim>\<open>beforePass\<close>
  hooks of all gatherers, then their \<^verbatim>\<open>pass\<close> hooks, then all their
  \<^verbatim>\<open>afterPass\<close> hooks, or none exactly on a page-load error: no outcome of a hook
  decides whether another hook is called.
\<close>

theorem hooks_run_despite_rejections:
  "events (snd (beforePass_loop gs c res s)) = events s @ hook_calls BeforePassPhase gs
   \<and> ((\<forall>g \<in> set gs. history_readable res (name (instance_of g))) \<longrightarrow>
        events (snd (pass_loop gs c res s)) = events s @ hook_calls PassPhase gs)
   \<and> ((\<forall>g \<in> set gs. history_readable res (name (instance_of g))) \<longrightarrow>
        events (snd (afterPass_loop gs ld c res s)) = events s @ hook_calls AfterPassPhase gs)
   \<and> (beforePass_loop pre c res s = ((c1, res1), s1) \<and>
        fst (fst (beforePass_hook (instance_of gd)
                    (hook_view (c1\<lparr>ctx_options := options gd\<rparr>)) (world s1))) = Rejected r \<and>
        name (instance_of gd) \<notin> set (gatherer_names post) \<longrightarrow>
        obj_get (snd (fst (beforePass_loop (pre @ gd # post) c res s))) (name (instance_of gd))
          = Some [Rejected r])
   \<and> (runPass env drv c s = (Inr (res', c'), s') \<longrightarrow>
        (\<exists>evs tail. events s' = events s @ evs \<and>
           filter is_hook_call evs =
             hook_calls BeforePassPhase (gatherers (passConfig c))
             @ hook_calls PassPhase (gatherers (passConfig c)) @ tail \<and>
           (tail = [] \<or> tail = hook_calls AfterPassPhase (gatherers (passConfig c)))))
   \<and> (beforePass_loop pre c res s = ((c1, res1), s1) \<and>
        beforePass_hook (instance_of gd) (hook_view (c1\<lparr>ctx_options := options gd\<rparr>)) (world s1)
          = ((p, ws), w2) \<longrightarrow>
        beforePass_loop (pre @ gd # post) c res s =
          beforePass_loop post (push_warnings ws (c1\<lparr>ctx_options := options gd\<rparr>))
            (obj_set (name (instance_of gd)) [p] res1)
            \<lparr>world = w2, events = events s1 @ [HookCall BeforePassPhase (name (instance_of gd))]\<rparr>)
   \<and> ((\<forall>g \<in> set (pre @ gd # post). history_readable res (name (instance_of g))) \<and>
        pass_loop pre c res s = ((c1, res1), s1) \<and>
        pass_hook (instance_of gd) (hook_view (c1\<lparr>ctx_options := options gd\<rparr>)) (world s1)
          = ((p, ws), w2) \<longrightarrow>
        pass_loop (pre @ gd # post) c res s =
          pass_loop post (push_warnings ws (c1\<lparr>ctx_options := options gd\<rparr>))
            (obj_set (name (instance_of gd)) (history_of res1 (name (instance_of gd)) @ [p]) res1)
            \<lparr>world = w2, events = events s1 @ [HookCall PassPhase (name (instance_of gd))]\<rparr>)
   \<and> ((\<forall>g \<in> set (pre @ gd # post). history_readable res (name (instance_of g))) \<and>
        afterPass_loop pre ld c res s = ((c1, res1), s1) \<and>
        afterPass_hook (instance_of gd) (hook_view (c1\<lparr>ctx_options := options gd\<rparr>)) ld (world s1)
          = ((p, ws), w2) \<longrightarrow>
        afterPass_loop (pre @ gd # post) ld c res s =
          afterPass_loop post ld (push_warnings ws (c1\<lparr>ctx_options := options gd\<rparr>))
            (obj_set (name (instance_of gd)) (history_of res1 (name (instance_of gd)) @ [p]) res1)
            \<lparr>world = w2, events = events s1 @ [HookCall AfterPassPhase (name (instance_of gd))]\<rparr>)
   \<and> (setupPassNetwork drv c s = (Inr v1, tA) \<and>
        (if isPerfPass c then driver_command drv CleanBrowserCaches else return ()) tA
          = (Inr v2, tB) \<and>
        beforePass_loop (gatherers (passConfig c)) c [] tB = ((cB, resB), tC) \<and>
        beginRecording drv cB tC = (Inr v3, tD) \<and>
        loadPage drv cB tD = (Inr cE, tE) \<and>
        pass_loop (gatherers (passConfig c)) cE resB tE = ((cF, resF), tF) \<and>
        endRecording env drv cF tF = (Inr ld, tG) \<and>
        driver_command drv (SetThrottling (ctx_settings cF) False) tG = (Inr v4, tH) \<longrightarrow>
        (\<exists>cH. runPass_until_check env drv c s = (Inr (cH, resF, ld), tH) \<and>
              ctx_url cH = ctx_url cE \<and> passConfig cH = passConfig c))
   \<and> (runPass_until_check env drv c s = (Inr (cH, resF, ld), tH) \<longrightarrow>
        (\<exists>v1 tA v2 tB cB resB tC v3 tD cE tE cF tF tG v4.
           setupPassNetwork drv c s = (Inr v1, tA) \<and>
           (if isPerfPass c then driver_command drv CleanBrowserCaches else return ()) tA
             = (Inr v2, tB) \<and>
           beforePass_loop (gatherers (passConfig c)) c [] tB = ((cB, resB), tC) \<and>
           beginRecording drv cB tC = (Inr v3, tD) \<and>
           loadPage drv cB tD = (Inr cE, tE) \<and>
           pass_loop (gatherers (passConfig c)) cE resB tE = ((cF, resF), tF) \<and>
           endRecording env drv cF tF = (Inr ld, tG) \<and>
           driver_command drv (SetThrottling (ctx_settings cF) False) tG = (Inr v4, tH)))
   \<and> (runPass_until_check env drv c s = (Inr (cH, resF, ld), tH) \<and>
        (\<not> online drv (world tH) \<or>
         getPageLoadError (equalWithExcludedFragments env) (hasErrorStatusCode env)
            (ctx_url cH) (networkRecords ld) = None) \<and>
        afterPass_loop (gatherers (passConfig c)) ld cH resF tH = ((c', res'), s') \<longrightarrow>
        runPass env drv c s = (Inr (res', c'), s'))
   \<and> (runPass env drv c s = (Inr (res', c'), s') \<longrightarrow>
        (\<exists>cH resF ld tH evs.
           runPass_until_check env drv c s = (Inr (cH, resF, ld), tH) \<and>
           events s' = events s @ evs \<and>
           filter is_hook_call evs =
             hook_calls BeforePassPhase (gatherers (passConfig c))
             @ hook_calls PassPhase (gatherers (passConfig c))
             @ (if online drv (world tH) \<and>
                   getPageLoadError (equalWithExcludedFragments env) (hasErrorStatusCode env)
                     (ctx_url cH) (networkRecords ld) \<noteq> None
                then [] else hook_calls AfterPassPhase (gatherers (passConfig c))) \<and>
           (if online drv (world tH) \<and>
               getPageLoadError (equalWithExcludedFragments env) (hasErrorStatusCode env)
                 (ctx_url cH) (networkRecords ld) \<noteq> None
            then s' = tH
            else afterPass_loop (gatherers (passConfig c)) ld cH resF tH = ((c', res'), s'))))"
proof -
  have strong: "events (snd (beforePass_loop gs c res s)) = events s @ hook_calls BeforePassPhase gs
   \<and> events (snd (pass_loop gs c res s)) = events s @ hook_calls PassPhase gs
   \<and> events (snd (afterPass_loop gs ld c res s)) = events s @ hook_calls AfterPassPhase gs
   \<and> (beforePass_loop pre c res s = ((c1, res1), s1) \<and>
        fst (fst (beforePass_hook (instance_of gd)
                    (hook_view (c1\<lparr>ctx_options := options gd\<rparr>)) (world s1))) = Rejected r \<and>
        name (instance_of gd) \<notin> set (gatherer_names post) \<longrightarrow>
        obj_get (snd (fst (beforePass_loop (pre @ gd # post) c res s))) (name (instance_of gd))
          = Some [Rejected r])
   \<and> (runPass env drv c s = (Inr (res', c'), s') \<longrightarrow>
        (\<exists>evs tail. events s' = events s @ evs \<and>
           filter is_hook_call evs =
             hook_calls BeforePassPhase (gatherers (passConfig c))
             @ hook_calls PassPhase (gatherers (passConfig c)) @ tail \<and>
           (tail = [] \<or> tail = hook_calls AfterPassPhase (gatherers (passConfig c)))))
   \<and> (beforePass_loop pre c res s = ((c1, res1), s1) \<and>
        beforePass_hook (instance_of gd) (hook_view (c1\<lparr>ctx_options := options gd\<rparr>)) (world s1)
          = ((p, ws), w2) \<longrightarrow>
        beforePass_loop (pre @ gd # post) c res s =
          beforePass_loop post (push_warnings ws (c1\<lparr>ctx_options := options gd\<rparr>))
            (obj_set (name (instance_of gd)) [p] res1)
            \<lparr>world = w2, events = events s1 @ [HookCall BeforePassPhase (name (instance_of gd))]\<rparr>)
   \<and> (pass_loop pre c res s = ((c1, res1), s1) \<and>
        pass_hook (instance_of gd) (hook_view (c1\<lparr>ctx_options := options gd\<rparr>)) (world s1)
          = ((p, ws), w2) \<longrightarrow>
        pass_loop (pre @ gd # post) c res s =
          pass_loop post (push_warnings ws (c1\<lparr>ctx_options := options gd\<rparr>))
            (obj_set (name (instance_of gd)) (history_of res1 (name (instance_of gd)) @ [p]) res1)
            \<lparr>world = w2, events = events s1 @ [HookCall PassPhase (name (instance_of gd))]\<rparr>)
   \<and> (afterPass_loop pre ld c res s = ((c1, res1), s1) \<and>
        afterPass_hook (instance_of gd) (hook_view (c1\<lparr>ctx_options := options gd\<rparr>)) ld (world s1)
          = ((p, ws), w2) \<longrightarrow>
        afterPass_loop (pre @ gd # post) ld c res s =
          afterPass_loop post ld (push_warnings ws (c1\<lparr>ctx_options := options gd\<rparr>))
            (obj_set (name (instance_of gd)) (history_of res1 (name (instance_of gd)) @ [p]) res1)
            \<lparr>world = w2, events = events s1 @ [HookCall AfterPassPhase (name (instance_of gd))]\<rparr>)
   \<and> (setupPassNetwork drv c s = (Inr v1, tA) \<and>
        (if isPerfPass c then driver_command drv CleanBrowserCaches else return ()) tA
          = (Inr v2, tB) \<and>
        beforePass_loop (gatherers (passConfig c)) c [] tB = ((cB, resB), tC) \<and>
        beginRecording drv cB tC = (Inr v3, tD) \<and>
        loadPage drv cB tD = (Inr cE, tE) \<and>
        pass_loop (gatherers (passConfig c)) cE resB tE = ((cF, resF), tF) \<and>
        endRecording env drv cF tF = (Inr ld, tG) \<and>
        driver_command drv (SetThrottling (ctx_settings cF) False) tG = (Inr v4, tH) \<longrightarrow>
        (\<exists>cH. runPass_until_check env drv c s = (Inr (cH, resF, ld), tH) \<and>
              ctx_url cH = ctx_url cE \<and> passConfig cH = passConfig c))
   \<and> (runPass_until_check env drv c s = (Inr (cH, resF, ld), tH) \<longrightarrow>
        (\<exists>v1 tA v2 tB cB resB tC v3 tD cE tE cF tF tG v4.
           setupPassNetwork drv c s = (Inr v1, tA) \<and>
           (if isPerfPass c then driver_command drv CleanBrowserCaches else return ()) tA
             = (Inr v2, tB) \<and>
           beforePass_loop (gatherers (passConfig c)) c [] tB = ((cB, resB), tC) \<and>
           beginRecording drv cB tC = (Inr v3, tD) \<and>
           loadPage drv cB tD = (Inr cE, tE) \<and>
           pass_loop (gatherers (passConfig c)) cE resB tE = ((cF, resF), tF) \<and>
           endRecording env drv cF tF = (Inr ld, tG) \<and>
           driver_command drv (SetThrottling (ctx_settings cF) False) tG = (Inr v4, tH)))
   \<and> (runPass_until_check env drv c s = (Inr (cH, resF, ld), tH) \<and>
        (\<not> online drv (world tH) \<or>
         getPageLoadError (equalWithExcludedFragments env) (hasErrorStatusCode env)
            (ctx_url cH) (networkRecords ld) = None) \<and>
        afterPass_loop (gatherers (passConfig c)) ld cH resF tH = ((c', res'), s') \<longrightarrow>
        runPass env drv c s = (Inr (res', c'), s'))
   \<and> (runPass env drv c s = (Inr (res', c'), s') \<longrightarrow>
        (\<exists>cH resF ld tH evs.
           runPass_until_check env drv c s = (Inr (cH, resF, ld), tH) \<and>
           events s' = events s @ evs \<and>
           filter is_hook_call evs =
             hook_calls BeforePassPhase (gatherers (passConfig c))
             @ hook_calls PassPhase (gatherers (passConfig c))
             @ (if online drv (world tH) \<and>
                   getPageLoadError (equalWithExcludedFragments env) (hasErrorStatusCode env)
                     (ctx_url cH) (networkRecords ld) \<noteq> None
                then [] else hook_calls AfterPassPhase (gatherers (passConfig c))) \<and>
           (if online drv (world tH) \<and>
               getPageLoadError (equalWithExcludedFragments env) (hasErrorStatusCode env)
                 (ctx_url cH) (networkRecords ld) \<noteq> None
            then s' = tH
            else afterPass_loop (gatherers (passConfig c)) ld cH resF tH = ((c', res'), s'))))"
  proof -
    have old: "events (snd (beforePass_loop gs c res s)) = events s @ hook_calls BeforePassPhase gs
     \<and> events (snd (pass_loop gs c res s)) = events s @ hook_calls PassPhase gs
     \<and> events (snd (afterPass_loop gs ld c res s)) = events s @ hook_calls AfterPassPhase gs
     \<and> (beforePass_loop pre c res s = ((c1, res1), s1) \<and>
          fst (fst (beforePass_hook (instance_of gd)
                      (hook_view (c1\<lparr>ctx_options := options gd\<rparr>)) (world s1))) = Rejected r \<and>
          name (instance_of gd) \<notin> set (gatherer_names post) \<longrightarrow>
          obj_get (snd (fst (beforePass_loop (pre @ gd # post) c res s))) (name (instance_of gd))
            = Some [Rejected r])
     \<and> (runPass env drv c s = (Inr (res', c'), s') \<longrightarrow>
          (\<exists>evs tail. events s' = events s @ evs \<and>
             filter is_hook_call evs =
               hook_calls BeforePassPhase (gatherers (passConfig c))
               @ hook_calls PassPhase (gatherers (passConfig c)) @ tail \<and>
             (tail = [] \<or> tail = hook_calls AfterPassPhase (gatherers (passConfig c)))))"
    proof (intro conjI impI)
      show "events (snd (beforePass_loop gs c res s)) = events s @ hook_calls BeforePassPhase gs"
        by (rule beforePass_loop_events)
      show "events (snd (pass_loop gs c res s)) = events s @ hook_calls PassPhase gs"
        by (rule pass_loop_events)
      show "events (snd (afterPass_loop gs ld c res s)) = events s @ hook_calls AfterPassPhase gs"
        by (rule afterPass_loop_events)
    next
      assume a: "beforePass_loop pre c res s = ((c1, res1), s1) \<and>
            fst (fst (beforePass_hook (instance_of gd)
                        (hook_view (c1\<lparr>ctx_options := options gd\<rparr>)) (world s1))) = Rejected r \<and>
            name (instance_of gd) \<notin> set (gatherer_names post)"
      let ?n = "name (instance_of gd)"
      let ?c = "c1\<lparr>ctx_options := options gd\<rparr>"
      obtain p c2 s2 where h: "call_hook BeforePassPhase ?n
          (beforePass_hook (instance_of gd) (hook_view ?c)) ?c s1 = ((p, c2), s2)"
        by (metis prod.exhaust)
      from call_hook_result [OF h] a have p: "p = Rejected r" by simp
      have "beforePass_loop (pre @ gd # post) c res s
          = beforePass_loop post c2 (obj_set ?n [Rejected r] res1) s2"
        using a h p by (simp add: beforePass_loop_append Let_def)
      moreover from a have "obj_get (snd (fst (beforePass_loop post c2 (obj_set ?n [Rejected r] res1) s2))) ?n
          = obj_get (obj_set ?n [Rejected r] res1) ?n"
        by (simp add: beforePass_loop_other)
      ultimately show "obj_get (snd (fst (beforePass_loop (pre @ gd # post) c res s))) ?n
          = Some [Rejected r]"
        by (simp add: obj_get_obj_set)
    next
      assume "runPass env drv c s = (Inr (res', c'), s')"
      from runPass_result(1) [OF this]
      show "\<exists>evs tail. events s' = events s @ evs \<and>
               filter is_hook_call evs =
                 hook_calls BeforePassPhase (gatherers (passConfig c))
                 @ hook_calls PassPhase (gatherers (passConfig c)) @ tail \<and>
               (tail = [] \<or> tail = hook_calls AfterPassPhase (gatherers (passConfig c)))"
        by blast
    qed
    from old beforePass_loop_step pass_loop_step afterPass_loop_step runPass_until_check_reached runPass_until_check_inverse runPass_page_loaded runPass_hook_calls show ?thesis
      apply (elim conjE)
      apply (intro conjI)
      apply assumption+
      done
  qed
  from strong show ?thesis
    apply (elim conjE)
    apply (intro conjI)
    apply (assumption | blast)+
    done
qed

lemmas ex_all_defs = ex_defs ex_context_def ex_baseArtifacts_def ex_env_no_records_def

theorem hooks_run_despite_rejections_witness:
  "fst (fst (beforePass_hook ex_gatherer_A
               (hook_view (ex_context\<lparr>ctx_options := None\<rparr>)) (world ex_state)))
     = Rejected (Val 1)
   \<and> obj_get (snd (fst (beforePass_loop ex_gatherers ex_context [] ex_state))) ''A''
     = Some [Rejected (Val 1)]
   \<and> events (snd (beforePass_loop ex_gatherers ex_context [] ex_state))
     = [HookCall BeforePassPhase ''A'', HookCall BeforePassPhase ''B'']
   \<and> filter is_hook_call (events (snd (runPass ex_env ex_driver ex_context ex_state)))
     = [HookCall BeforePassPhase ''A'', HookCall BeforePassPhase ''B'',
        HookCall PassPhase ''A'', HookCall PassPhase ''B'',
        HookCall AfterPassPhase ''A'', HookCall AfterPassPhase ''B'']
   \<and> isl (fst (runPass ex_env ex_driver ex_context ex_state)) = False
   \<and> obj_get (snd (fst (afterPass_loop ex_gatherers
                          \<lparr>networkRecords = [], devtoolsLog = [], trace = None\<rparr> ex_context
                          [(''A'', [Rejected (Val 1), Resolved Undefined])] ex_state))) ''A''
     = Some [Rejected (Val 1), Resolved Undefined, Resolved (Val 7)]
   \<and> world (snd (afterPass_loop ex_gatherers
                    \<lparr>networkRecords = [], devtoolsLog = [], trace = None\<rparr> ex_context
                    [(''A'', [Rejected (Val 1), Resolved Undefined])] ex_state)) = 2
   \<and> events (snd (afterPass_loop ex_gatherers
                     \<lparr>networkRecords = [], devtoolsLog = [], trace = None\<rparr> ex_context
                     [(''A'', [Rejected (Val 1), Resolved Undefined])] ex_state))
     = [HookCall AfterPassPhase ''A'', HookCall AfterPassPhase ''B'']"
proof -
  let ?gdA = "\<lparr>instance_of = ex_gatherer_A, options = None\<rparr> :: (nat, nat) gatherer_defn"
  let ?gdB = "\<lparr>instance_of = ex_gatherer_B, options = None\<rparr> :: (nat, nat) gatherer_defn"
  let ?ld = "\<lparr>networkRecords = [], devtoolsLog = [], trace = None\<rparr> :: nat load_data"
  let ?h = "[(''A'', [Rejected (Val 1), Resolved Undefined])] :: nat gatherer_results"
  note T = hooks_run_despite_rejections [where gs = ex_gatherers and c = ex_context
      and res = "[]" and s = ex_state and pre = "[]" and gd = ?gdA and post = "[?gdB]"
      and ?c1.0 = ex_context and ?res1.0 = "[]" and ?s1.0 = ex_state and r = "Val 1"
      and env = ex_env and drv = ex_driver]
  have 1: "fst (fst (beforePass_hook ex_gatherer_A
               (hook_view (ex_context\<lparr>ctx_options := None\<rparr>)) (world ex_state)))
     = Rejected (Val 1)"
    by (simp add: ex_gatherer_A_def)
  have n: "name (instance_of ?gdA) \<notin> set (gatherer_names [?gdB])"
    by (simp add: gatherer_names_def ex_gatherer_A_def ex_gatherer_B_def)
  have g: "ex_gatherers = [] @ ?gdA # [?gdB]" by (simp add: ex_gatherers_def)
  have b: "beforePass_loop [] ex_context [] ex_state = ((ex_context, []), ex_state)" by simp
  have h1: "fst (fst (beforePass_hook (instance_of ?gdA)
               (hook_view (ex_context\<lparr>ctx_options := options ?gdA\<rparr>)) (world ex_state)))
     = Rejected (Val 1)"
    by (simp add: ex_gatherer_A_def)
  have nm: "name (instance_of ?gdA) = ''A''" by (simp add: ex_gatherer_A_def)
  note T4 = T [THEN conjunct2, THEN conjunct2, THEN conjunct2, THEN conjunct1, rule_format]
  have "obj_get (snd (fst (beforePass_loop ([] @ ?gdA # [?gdB]) ex_context [] ex_state)))
          (name (instance_of ?gdA)) = Some [Rejected (Val 1)]"
    by (rule T4) (intro conjI b h1 n)
  then have 2: "obj_get (snd (fst (beforePass_loop ex_gatherers ex_context [] ex_state))) ''A''
     = Some [Rejected (Val 1)]"
    unfolding g [symmetric] nm .
  from T [THEN conjunct1]
  have 3: "events (snd (beforePass_loop ex_gatherers ex_context [] ex_state))
     = [HookCall BeforePassPhase ''A'', HookCall BeforePassPhase ''B'']"
    by (simp add: hook_calls_def ex_gatherers_def ex_gatherer_A_def ex_gatherer_B_def ex_state_def)
  have "\<exists>v1 tA v2 tB cB resB tC v3 tD cE tE cF resF tF ld tG v4 tH.
      setupPassNetwork ex_driver ex_context ex_state = (Inr v1, tA) \<and>
      (if isPerfPass ex_context then driver_command ex_driver CleanBrowserCaches else return ()) tA
        = (Inr v2, tB) \<and>
      beforePass_loop (gatherers (passConfig ex_context)) ex_context [] tB = ((cB, resB), tC) \<and>
      beginRecording ex_driver cB tC = (Inr v3, tD) \<and>
      loadPage ex_driver cB tD = (Inr cE, tE) \<and>
      pass_loop (gatherers (passConfig ex_context)) cE resB tE = ((cF, resF), tF) \<and>
      endRecording ex_env ex_driver cF tF = (Inr ld, tG) \<and>
      driver_command ex_driver (SetThrottling (ctx_settings cF) False) tG = (Inr v4, tH) \<and>
      getPageLoadError (equalWithExcludedFragments ex_env) (hasErrorStatusCode ex_env)
        (ctx_url cE) (networkRecords ld) = None"
    by (simp add: ex_all_defs run_defs)
  then obtain v1 tA v2 tB cB resB tC v3 tD cE tE cF resF tF ld tG v4 tH where
    st: "setupPassNetwork ex_driver ex_context ex_state = (Inr v1, tA) \<and>
      (if isPerfPass ex_context then driver_command ex_driver CleanBrowserCaches else return ()) tA
        = (Inr v2, tB) \<and>
      beforePass_loop (gatherers (passConfig ex_context)) ex_context [] tB = ((cB, resB), tC) \<and>
      beginRecording ex_driver cB tC = (Inr v3, tD) \<and>
      loadPage ex_driver cB tD = (Inr cE, tE) \<and>
      pass_loop (gatherers (passConfig ex_context)) cE resB tE = ((cF, resF), tF) \<and>
      endRecording ex_env ex_driver cF tF = (Inr ld, tG) \<and>
      driver_command ex_driver (SetThrottling (ctx_settings cF) False) tG = (Inr v4, tH)"
    and ok: "getPageLoadError (equalWithExcludedFragments ex_env) (hasErrorStatusCode ex_env)
        (ctx_url cE) (networkRecords ld) = None"
    by blast
  note F = hooks_run_despite_rejections [where env = ex_env and drv = ex_driver
      and c = ex_context and s = ex_state and ld = ld and resF = resF and tH = tH]
  from F [where ?v1.0 = v1 and tA = tA and ?v2.0 = v2 and tB = tB and cB = cB and resB = resB
        and tC = tC and ?v3.0 = v3 and tD = tD and cE = cE and tE = tE and cF = cF and tF = tF
        and tG = tG and ?v4.0 = v4, THEN conjunct2, THEN conjunct2, THEN conjunct2, THEN conjunct2, THEN conjunct2, THEN conjunct2, THEN conjunct2, THEN conjunct2, THEN conjunct1, rule_format, OF st]
  obtain cH where u: "runPass_until_check ex_env ex_driver ex_context ex_state
        = (Inr (cH, resF, ld), tH)"
    and cu: "ctx_url cH = ctx_url cE"
    by blast
  obtain c' res' s' where
    a: "afterPass_loop (gatherers (passConfig ex_context)) ld cH resF tH = ((c', res'), s')"
    by (metis prod.exhaust)
  from ok cu have ok': "\<not> online ex_driver (world tH) \<or>
      getPageLoadError (equalWithExcludedFragments ex_env) (hasErrorStatusCode ex_env)
        (ctx_url cH) (networkRecords ld) = None"
    by simp
  from F [where cH = cH and c' = c' and res' = res' and s' = s', THEN conjunct2, THEN conjunct2, THEN conjunct2, THEN conjunct2, THEN conjunct2, THEN conjunct2, THEN conjunct2, THEN conjunct2, THEN conjunct2, THEN conjunct2, THEN conjunct1, rule_format]
    u ok' a
  have r: "runPass ex_env ex_driver ex_context ex_state = (Inr (res', c'), s')"
    by blast
  from F [where c' = c' and res' = res' and s' = s', THEN conjunct2, THEN conjunct2, THEN conjunct2, THEN conjunct2, THEN conjunct2, THEN conjunct2, THEN conjunct2, THEN conjunct2, THEN conjunct2, THEN conjunct2, THEN conjunct2, rule_format, OF r]
  obtain cH2 resF2 ld2 tH2 evs where
    u2: "runPass_until_check ex_env ex_driver ex_context ex_state = (Inr (cH2, resF2, ld2), tH2)"
    and e: "events s' = events ex_state @ evs"
    and f: "filter is_hook_call evs =
             hook_calls BeforePassPhase (gatherers (passConfig ex_context))
             @ hook_calls PassPhase (gatherers (passConfig ex_context))
             @ (if online ex_driver (world tH2) \<and>
                   getPageLoadError (equalWithExcludedFragments ex_env) (hasErrorStatusCode ex_env)
                     (ctx_url cH2) (networkRecords ld2) \<noteq> None
                then [] else hook_calls AfterPassPhase (gatherers (passConfig ex_context)))"
    by blast
  from u u2 have "cH2 = cH" "ld2 = ld" by simp_all
  with f ok cu have "filter is_hook_call evs =
             hook_calls BeforePassPhase (gatherers (passConfig ex_context))
             @ hook_calls PassPhase (gatherers (passConfig ex_context))
             @ hook_calls AfterPassPhase (gatherers (passConfig ex_context))"
    by simp
  with r e have 4: "filter is_hook_call (events (snd (runPass ex_env ex_driver ex_context ex_state)))
     = [HookCall BeforePassPhase ''A'', HookCall BeforePassPhase ''B'',
        HookCall PassPhase ''A'', HookCall PassPhase ''B'',
        HookCall AfterPassPhase ''A'', HookCall AfterPassPhase ''B'']"
    by (simp add: hook_calls_def ex_context_def ex_pass_def ex_gatherers_def ex_gatherer_A_def
          ex_gatherer_B_def ex_state_def)
  from r have 5: "isl (fst (runPass ex_env ex_driver ex_context ex_state)) = False" by simp
  have ha: "afterPass_hook (instance_of ?gdA)
        (hook_view (ex_context\<lparr>ctx_options := options ?gdA\<rparr>)) ?ld (world ex_state)
      = ((Resolved (Val 7), [''slow page'']), 1)"
    by (simp add: ex_gatherer_A_def ex_state_def)
  have a0: "afterPass_loop [] ?ld ex_context ?h ex_state = ((ex_context, ?h), ex_state)" by simp
  have hr: "\<forall>g \<in> set ([] @ ?gdA # [?gdB]). history_readable ?h (name (instance_of g))"
    by (simp add: history_readable_def object_prototype_names_def ex_gatherer_A_def
          ex_gatherer_B_def)
  note A = hooks_run_despite_rejections [where pre = "[]" and gd = ?gdA and post = "[?gdB]"
      and ld = ?ld and c = ex_context and res = ?h and s = ex_state and ?c1.0 = ex_context
      and ?res1.0 = ?h and ?s1.0 = ex_state and p = "Resolved (Val 7)" and ws = "[''slow page'']"
      and ?w2.0 = 1, THEN conjunct2, THEN conjunct2, THEN conjunct2, THEN conjunct2, THEN conjunct2, THEN conjunct2, THEN conjunct2, THEN conjunct1, rule_format]
  have "afterPass_loop ([] @ ?gdA # [?gdB]) ?ld ex_context ?h ex_state =
          afterPass_loop [?gdB] ?ld
            (push_warnings [''slow page''] (ex_context\<lparr>ctx_options := options ?gdA\<rparr>))
            (obj_set (name (instance_of ?gdA)) (history_of ?h (name (instance_of ?gdA))
               @ [Resolved (Val 7)]) ?h)
            \<lparr>world = 1, events = events ex_state @ [HookCall AfterPassPhase (name (instance_of ?gdA))]\<rparr>"
    by (rule A) (intro conjI hr a0 ha)
  then have al: "afterPass_loop ex_gatherers ?ld ex_context ?h ex_state =
          afterPass_loop [?gdB] ?ld
            (push_warnings [''slow page''] (ex_context\<lparr>ctx_options := options ?gdA\<rparr>))
            (obj_set (name (instance_of ?gdA)) (history_of ?h (name (instance_of ?gdA))
               @ [Resolved (Val 7)]) ?h)
            \<lparr>world = 1, events = events ex_state @ [HookCall AfterPassPhase (name (instance_of ?gdA))]\<rparr>"
    unfolding g [symmetric] .
  have 6: "obj_get (snd (fst (afterPass_loop ex_gatherers ?ld ex_context ?h ex_state))) ''A''
     = Some [Rejected (Val 1), Resolved Undefined, Resolved (Val 7)]"
    unfolding al
    by (simp add: ex_gatherer_A_def ex_gatherer_B_def call_hook_def log_event_def
          history_of_def obj_get_def obj_set_def Let_def)
  have 7: "world (snd (afterPass_loop ex_gatherers ?ld ex_context ?h ex_state)) = 2"
    unfolding al
    by (simp add: ex_gatherer_A_def ex_gatherer_B_def call_hook_def log_event_def
          history_of_def obj_get_def obj_set_def Let_def)
  from hr have hr': "\<forall>g \<in> set ex_gatherers. history_readable ?h (name (instance_of g))"
    unfolding g [symmetric] .
  from hooks_run_despite_rejections [where gs = ex_gatherers and ld = ?ld and c = ex_context
      and res = ?h and s = ex_state, THEN conjunct2, THEN conjunct2, THEN conjunct1,
      THEN mp, OF hr']
  have 8: "events (snd (afterPass_loop ex_gatherers ?ld ex_context ?h ex_state))
     = [HookCall AfterPassPhase ''A'', HookCall AfterPassPhase ''B'']"
    by (simp add: hook_calls_def ex_gatherers_def ex_gatherer_A_def ex_gatherer_B_def ex_state_def)
  from 1 2 3 4 5 6 7 8 show ?thesis by simp
qed

section \<open>A pass whose page failed to load\<close>

text \<open>
  C2. When \<^verbatim>\<open>runPass\<close> reaches its check with a page-load error from the classifier
  and the driver online, it returns in the state it reached the check in: it calls no
  hook and no driver method after the check, so no \<^verbatim>\<open>afterPass\<close> hook is called in
  the pass. The message of the error is appended once to the warnings. The history of
  every gatherer of the pass is its history at the check followed by a rejection with
  that error (once for each time its name occurs among the gatherers of the pass), and
  every other history is unchanged.
\<close>

theorem runPass_page_load_failure:
  assumes "runPass_until_check env drv c s = (Inr (c1, res1, ld), s1)"
      and "getPageLoadError (equalWithExcludedFragments env) (hasErrorStatusCode env)
             (ctx_url c1) (networkRecords ld) = Some err"
      and "online drv (world s1)"
  shows "\<exists>res' c' evs.
           runPass env drv c s = (Inr (res', c'), s1)
         \<and> events s1 = events s @ evs
         \<and> filter is_hook_call evs =
             hook_calls BeforePassPhase (gatherers (passConfig c))
             @ hook_calls PassPhase (gatherers (passConfig c))
         \<and> (\<forall>n. HookCall AfterPassPhase n \<notin> set evs)
         \<and> LighthouseRunWarnings (baseArtifacts c')
             = LighthouseRunWarnings (baseArtifacts c1) @ [friendlyMessage env err]
         \<and> (\<forall>n. obj_get res' n =
               (if n \<in> set (gatherer_names (gatherers (passConfig c)))
                then Some (history_of res1 n
                       @ replicate (count_list (gatherer_names (gatherers (passConfig c))) n)
                           (Rejected (LHErr err)))
                else obj_get res1 n))"
proof -
  let ?c' = "push_warnings [friendlyMessage env err] c1"
  let ?res' = "fillWithPageLoadErrors ?c' err res1"
  note U = runPass_until_check_result [OF assms(1)]
  from assms have r: "runPass env drv c s = (Inr (?res', ?c'), s1)"
    by (simp add: runPass_def await_then_def Let_def)
  from U(1) obtain evs where e: "events s1 = events s @ evs"
    "filter is_hook_call evs = hook_calls BeforePassPhase (gatherers (passConfig c))
       @ hook_calls PassPhase (gatherers (passConfig c))"
    by blast
  have w: "LighthouseRunWarnings (baseArtifacts ?c')
      = LighthouseRunWarnings (baseArtifacts c1) @ [friendlyMessage env err]"
    by (simp add: push_warnings_fields)
  have g: "\<forall>n. obj_get ?res' n =
               (if n \<in> set (gatherer_names (gatherers (passConfig c)))
                then Some (history_of res1 n
                       @ replicate (count_list (gatherer_names (gatherers (passConfig c))) n)
                           (Rejected (LHErr err)))
                else obj_get res1 n)"
    using U(2) by (simp add: fillWithPageLoadErrors_def fillWithPageLoadErrors_loop_get
        push_warnings_fields)
  have a: "\<forall>n. HookCall AfterPassPhase n \<notin> set evs"
  proof (intro allI notI)
    fix n assume "HookCall AfterPassPhase n \<in> set evs"
    then have "HookCall AfterPassPhase n \<in> set (filter is_hook_call evs)" by simp
    with e(2) show False by (auto simp: hook_calls_def)
  qed
  from r e w g a show ?thesis by blast
qed

theorem runPass_page_load_failure_witness:
  "map_sum id (\<lambda>x. (history_of (fst x) ''A'', history_of (fst x) ''B'',
                     LighthouseRunWarnings (baseArtifacts (snd x))))
     (fst (runPass ex_env_no_records ex_driver ex_context ex_state))
   = Inr ([Rejected (Val 1), Resolved Undefined, Rejected (LHErr (LHError NO_DOCUMENT_REQUEST []))],
          [Resolved (Val 2), Resolved (Val 3), Rejected (LHErr (LHError NO_DOCUMENT_REQUEST []))],
          [''The page did not load''])"
proof -
  obtain c1 res1 ld s1 where
    u: "runPass_until_check ex_env_no_records ex_driver ex_context ex_state
          = (Inr (c1, res1, ld), s1)"
    and f: "ctx_url c1 = ''http://a.test/b''" "networkRecords ld = []"
      "res1 = [(''A'', [Rejected (Val 1), Resolved Undefined]),
               (''B'', [Resolved (Val 2), Resolved (Val 3)])]"
      "LighthouseRunWarnings (baseArtifacts c1) = []"
    by (simp add: ex_all_defs run_defs)
  have g: "getPageLoadError (equalWithExcludedFragments ex_env_no_records)
             (hasErrorStatusCode ex_env_no_records) (ctx_url c1) (networkRecords ld)
           = Some (LHError NO_DOCUMENT_REQUEST [])"
    using f by (simp add: getPageLoadError_def)
  have o: "online ex_driver (world s1)" by (simp add: ex_driver_def)
  from runPass_page_load_failure [OF u g o] obtain res' c' where
    r: "runPass ex_env_no_records ex_driver ex_context ex_state = (Inr (res', c'), s1)"
    and w: "LighthouseRunWarnings (baseArtifacts c')
             = LighthouseRunWarnings (baseArtifacts c1)
               @ [friendlyMessage ex_env_no_records (LHError NO_DOCUMENT_REQUEST [])]"
    and h: "\<forall>n. obj_get res' n =
               (if n \<in> set (gatherer_names (gatherers (passConfig ex_context)))
                then Some (history_of res1 n
                       @ replicate (count_list (gatherer_names (gatherers (passConfig ex_context))) n)
                           (Rejected (LHErr (LHError NO_DOCUMENT_REQUEST []))))
                else obj_get res1 n)"
    by blast
  have names: "gatherer_names (gatherers (passConfig ex_context)) = [''A'', ''B'']"
    by (simp add: gatherer_names_def ex_all_defs)
  from h names f have "history_of res' ''A''
      = [Rejected (Val 1), Resolved Undefined, Rejected (LHErr (LHError NO_DOCUMENT_REQUEST []))]"
    and "history_of res' ''B''
      = [Resolved (Val 2), Resolved (Val 3), Rejected (LHErr (LHError NO_DOCUMENT_REQUEST []))]"
    by (simp_all add: history_of_def obj_get_def)
  moreover from w f have "LighthouseRunWarnings (baseArtifacts c') = [''The page did not load'']"
    by (simp add: ex_env_no_records_def ex_env_def)
  ultimately show ?thesis using r by simp
qed

section \<open>What the first pass leaves in the base artifacts\<close>

lemma loadBlank_quiet:
  "loadBlank drv target s = (Inr u, s') \<Longrightarrow>
   \<exists>evs. events s' = events s @ evs \<and> filter is_observation evs = []"
  by (auto dest!: loadBlank_result)

lemma invoke_quiet:
  "invoke (Query q) f s = (r, s') \<Longrightarrow>
   \<exists>evs. events s' = events s @ evs \<and> filter is_observation evs = []"
  by (auto dest!: invoke_result)

lemma run_loop_body_later:
  assumes "run_loop_body env drv requested stg pc False res bA s = (Inr (res', bA'), s')"
  shows "URL bA' = URL bA \<and> NetworkUserAgent bA' = NetworkUserAgent bA \<and>
         (\<exists>evs. events s' = events s @ evs)"
proof -
  let ?c = "\<lparr>ctx_url = requested, ctx_settings = stg, passConfig = pc,
             baseArtifacts = bA, ctx_options = None\<rparr>"
  from assms obtain u sA passResults c1 where
    b: "loadBlank drv (case blankPage pc of None \<Rightarrow> defaultBlankPage env | Some b \<Rightarrow> b) s
          = (Inr u, sA)"
    and r: "runPass env drv ?c sA = (Inr (passResults, c1), s')"
    and o: "bA' = baseArtifacts c1"
    by (auto simp: run_loop_body_def await_then_Inr_iff Let_def return_def)
  from loadBlank_quiet [OF b] obtain evs1 where e1: "events sA = events s @ evs1" by blast
  note R = runPass_result [OF r]
  from R(1) obtain evs2 where e2: "events s' = events sA @ evs2" by blast
  from e1 e2 have "events s' = events s @ (evs1 @ evs2)" by simp
  with R(2,3) o show ?thesis by auto
qed

lemma run_loop_body_first:
  assumes "run_loop_body env drv requested stg pc True res bA s = (Inr (res', bA'), s')"
  shows "\<exists>evs final ld. events s' = events s @ evs \<and>
           filter is_observation evs =
             [Navigated requested (WaitForLoad (recordTrace pc)) final, LogEnded ld] \<and>
           requestedUrl (URL bA') = requestedUrl (URL bA) \<and>
           finalUrl (URL bA') = final \<and>
           NetworkUserAgent bA' = first_user_agent ld (NetworkUserAgent bA)"
proof -
  let ?c = "\<lparr>ctx_url = requested, ctx_settings = stg, passConfig = pc,
             baseArtifacts = bA, ctx_options = None\<rparr>"
  from assms obtain passResults c1 sB manifest sC stacks sD entries where
    r: "runPass env drv ?c s = (Inr (passResults, c1), sB)"
    and m: "getWebAppManifest env drv c1 sB = (Inr manifest, sC)"
    and k: "invoke (Query StackCollector) (stacksGatherer env) sC = (Inr stacks, sD)"
    and l: "obj_get (devtoolsLogs (baseArtifacts c1)) (passName pc) = Some entries"
    and o: "bA' = (baseArtifacts c1)
         \<lparr>URL := (URL (baseArtifacts c1))\<lparr>finalUrl := ctx_url c1\<rparr>,
          WebAppManifest := manifest, Stacks := stacks,
          NetworkUserAgent := first_user_agent entries (NetworkUserAgent (baseArtifacts c1))\<rparr>"
    and s': "s' = sD"
    by (auto simp: run_loop_body_def await_then_Inr_iff Let_def return_def throw_def
          first_user_agent_def split: option.splits)
  note R = runPass_result [OF r]
  from R(1) l obtain evs1 where e1: "events sB = events s @ evs1"
    and f1: "filter is_observation evs1 =
       [Navigated requested (WaitForLoad (recordTrace pc)) (ctx_url c1), LogEnded entries]"
    by auto
  from m obtain evs2 where e2: "events sC = events sB @ evs2"
    and f2: "filter is_observation evs2 = []"
    unfolding getWebAppManifest_def await_then_Inr_iff return_def
    by (auto dest!: invoke_quiet)
  from invoke_quiet [OF k] obtain evs3 where e3: "events sD = events sC @ evs3"
    and f3: "filter is_observation evs3 = []" by blast
  from e1 e2 e3 s' have "events s' = events s @ (evs1 @ evs2 @ evs3)" by simp
  moreover from f1 f2 f3 have "filter is_observation (evs1 @ evs2 @ evs3) =
       [Navigated requested (WaitForLoad (recordTrace pc)) (ctx_url c1), LogEnded entries]"
    by simp
  moreover from o R(2) have "requestedUrl (URL bA') = requestedUrl (URL bA)" by simp
  moreover from o have "finalUrl (URL bA') = ctx_url c1" by simp
  moreover from o R(3) have "NetworkUserAgent bA' = first_user_agent entries (NetworkUserAgent bA)"
    by simp
  ultimately show ?thesis by blast
qed

lemma run_passes_later:
  "run_passes env drv requested stg passes False res bA s = (Inr (res', bA'), s') \<Longrightarrow>
   URL bA' = URL bA \<and> NetworkUserAgent bA' = NetworkUserAgent bA \<and>
   (\<exists>evs. events s' = events s @ evs)"
proof (induction passes arbitrary: res bA s)
  case Nil
  then show ?case by simp
next
  case (Cons pc rest)
  from Cons.prems obtain res1 bA1 s1 where
    b: "run_loop_body env drv requested stg pc False res bA s = (Inr (res1, bA1), s1)"
    and r: "run_passes env drv requested stg rest False res1 bA1 s1 = (Inr (res', bA'), s')"
    by (auto split: prod.splits sum.splits)
  from run_loop_body_later [OF b] Cons.IH [OF r] show ?case by auto
qed

lemma run_passes_first:
  assumes "run_passes env drv requested stg (pc # rest) True res bA s = (Inr (res', bA'), s')"
  shows "\<exists>evs final ld tail. events s' = events s @ evs \<and>
           filter is_observation evs =
             Navigated requested (WaitForLoad (recordTrace pc)) final # LogEnded ld # tail \<and>
           requestedUrl (URL bA') = requestedUrl (URL bA) \<and>
           finalUrl (URL bA') = final \<and>
           NetworkUserAgent bA' = first_user_agent ld (NetworkUserAgent bA)"
proof -
  from assms obtain res1 bA1 s1 where
    b: "run_loop_body env drv requested stg pc True res bA s = (Inr (res1, bA1), s1)"
    and r: "run_passes env drv requested stg rest False res1 bA1 s1 = (Inr (res', bA'), s')"
    by (auto split: prod.splits sum.splits)
  from run_loop_body_first [OF b] obtain evs1 final ld where
    e1: "events s1 = events s @ evs1"
    and f1: "filter is_observation evs1 =
       [Navigated requested (WaitForLoad (recordTrace pc)) final, LogEnded ld]"
    and u: "requestedUrl (URL bA1) = requestedUrl (URL bA)" "finalUrl (URL bA1) = final"
      "NetworkUserAgent bA1 = first_user_agent ld (NetworkUserAgent bA)"
    by blast
  from run_passes_later [OF r] obtain evs2 where
    e2: "events s' = events s1 @ evs2"
    and v: "URL bA' = URL bA1" "NetworkUserAgent bA' = NetworkUserAgent bA1"
    by blast
  from e1 e2 have "events s' = events s @ (evs1 @ evs2)" by simp
  moreover from f1 have "filter is_observation (evs1 @ evs2) =
      Navigated requested (WaitForLoad (recordTrace pc)) final # LogEnded ld
        # filter is_observation evs2" by simp
  ultimately show ?thesis using u v by auto
qed

lemma getBaseArtifacts_result:
  "getBaseArtifacts env drv requested stg s = (Inr b0, s') \<Longrightarrow>
   NetworkUserAgent b0 = [] \<and> URL b0 = \<lparr>requestedUrl = requested, finalUrl = []\<rparr> \<and>
   (\<exists>evs. events s' = events s @ evs \<and> filter is_observation evs = [])"
  by (auto simp: getBaseArtifacts_def await_then_Inr_iff Let_def dest!: invoke_quiet)

lemma driver_command_quiet:
  "driver_command drv c s = (r, s') \<Longrightarrow>
   \<exists>evs. events s' = events s @ evs \<and> filter is_observation evs = []"
  by (auto dest!: driver_command_result)

lemma run_try_steps:
  assumes "run_try env passes drv requested stg s = (Inr (res, bA), s')"
  obtains b0 bi sE sF evs1 evs2 where
    "NetworkUserAgent b0 = []" "URL b0 = \<lparr>requestedUrl = requested, finalUrl = []\<rparr>"
    "run_passes env drv requested stg passes True [] (b0\<lparr>BenchmarkIndex := bi\<rparr>) sE
       = (Inr (res, bA), sF)"
    "events sE = events s @ evs1" "filter is_observation evs1 = []"
    "events s' = events sF @ evs2" "filter is_observation evs2 = []"
proof -
  from assms obtain u1 sA b0 sB u2 sC bi sD u3 sE sF u4 sG u5 where
    st: "driver_command drv Connect s = (Inr u1, sA)"
      "getBaseArtifacts env drv requested stg sA = (Inr b0, sB)"
      "loadBlank drv (defaultBlankPage env) sB = (Inr u2, sC)"
      "invoke (Query GetBenchmarkIndex) (getBenchmarkIndex drv) sC = (Inr bi, sD)"
      "setupDriver drv requested stg sD = (Inr u3, sE)"
      "run_passes env drv requested stg passes True [] (b0\<lparr>BenchmarkIndex := bi\<rparr>) sE
         = (Inr (res, bA), sF)"
      "(if \<not> disableStorageReset stg then driver_command drv (ClearDataForOrigin requested)
        else return ()) sF = (Inr u4, sG)"
      "disposeDriver drv sG = (Inr u5, s')"
    unfolding run_try_def await_then_Inr_iff split_def return_def by auto
  from driver_command_quiet [OF st(1)] obtain eA where
    A: "events sA = events s @ eA" "filter is_observation eA = []" by blast
  note G = getBaseArtifacts_result [OF st(2)]
  from G obtain eB where B: "events sB = events sA @ eB" "filter is_observation eB = []" by blast
  from loadBlank_quiet [OF st(3)] obtain eC where
    C: "events sC = events sB @ eC" "filter is_observation eC = []" by blast
  from invoke_quiet [OF st(4)] obtain eD where
    D: "events sD = events sC @ eD" "filter is_observation eD = []" by blast
  from setupDriver_result [OF st(5)] obtain cs where E: "events sE = events sD @ map Command cs"
    by blast
  have 1: "events sE = events s @ (eA @ eB @ eC @ eD @ map Command cs)"
    using A B C D E by simp
  have 2: "filter is_observation (eA @ eB @ eC @ eD @ map Command cs) = []"
    using A B C D by simp
  obtain eG where Gq: "events sG = events sF @ eG" "filter is_observation eG = []"
  proof (cases "disableStorageReset stg")
    case True
    with st(7) have "events sG = events sF @ []" by (simp add: return_def)
    then show ?thesis by (rule that) simp
  next
    case False
    with st(7) driver_command_quiet show ?thesis using that by fastforce
  qed
  from st(8) have "s' = snd (disposeDriver drv sG)" by simp
  then have H: "events s' = events sG @ [Command Disconnect]" by (simp add: disposeDriver_result)
  have 3: "events s' = events sF @ (eG @ [Command Disconnect])" using Gq H by simp
  have 4: "filter is_observation (eG @ [Command Disconnect]) = []" using Gq by simp
  from G st(6) 1 2 3 4 show ?thesis using that by blast
qed

lemma run_Inr:
  assumes "run env passes drv requested stg s = (Inr arts, s')"
  obtains res bA where "run_try env passes drv requested stg s = (Inr (res, bA), s')"
    and "URL (base_part arts) = URL bA"
    and "NetworkUserAgent (base_part arts) = NetworkUserAgent bA"
proof -
  obtain r s1 where t: "run_try env passes drv requested stg s = (r, s1)"
    by (cases "run_try env passes drv requested stg s")
  show ?thesis
  proof (cases r)
    case (Inl e)
    with assms t show ?thesis by (simp add: run_def)
  next
    case (Inr x)
    obtain res bA where x: "x = (res, bA)" by (cases x)
    with Inr assms t have c: "collectArtifacts env res bA s1 = (Inr arts, s')"
      by (simp add: run_def)
    from collectArtifacts_Inr [OF c] Inr t x show ?thesis by (auto intro: that)
  qed
qed

text \<open>
  C8. When a run with at least one pass returns, the first page load of the run was a
  navigation to the requested URL, and the final URL of the bundle is what that
  navigation returned, whether or not it differs from the requested URL; the requested
  URL of the bundle is the URL the run was given. Later passes change neither.
\<close>

theorem final_url_of_first_pass:
  assumes "run env (pc # rest) drv requested stg s = (Inr arts, s')"
  shows "\<exists>evs final tail. events s' = events s @ evs
           \<and> filter is_observation evs
               = Navigated requested (WaitForLoad (recordTrace pc)) final # tail
           \<and> finalUrl (URL (base_part arts)) = final
           \<and> requestedUrl (URL (base_part arts)) = requested"
proof -
  from assms obtain res bA where
    t: "run_try env (pc # rest) drv requested stg s = (Inr (res, bA), s')"
    and a: "URL (base_part arts) = URL bA"
    by (rule run_Inr)
  from t obtain b0 bi sE sF evs1 evs2 where
    b: "URL b0 = \<lparr>requestedUrl = requested, finalUrl = []\<rparr>"
    and p: "run_passes env drv requested stg (pc # rest) True [] (b0\<lparr>BenchmarkIndex := bi\<rparr>) sE
       = (Inr (res, bA), sF)"
    and e: "events sE = events s @ evs1" "filter is_observation evs1 = []"
      "events s' = events sF @ evs2" "filter is_observation evs2 = []"
    by (rule run_try_steps)
  from run_passes_first [OF p] obtain evs final ld tail where
    q: "events sF = events sE @ evs"
      "filter is_observation evs =
         Navigated requested (WaitForLoad (recordTrace pc)) final # LogEnded ld # tail"
      "requestedUrl (URL bA) = requestedUrl (URL (b0\<lparr>BenchmarkIndex := bi\<rparr>))"
      "finalUrl (URL bA) = final"
    by blast
  from e q have "events s' = events s @ (evs1 @ evs @ evs2)" by simp
  moreover from e q have "filter is_observation (evs1 @ evs @ evs2) =
      Navigated requested (WaitForLoad (recordTrace pc)) final # LogEnded ld # tail" by simp
  ultimately show ?thesis using a b q by auto
qed

theorem final_url_of_first_pass_witness:
  "map_sum id (\<lambda>a. (requestedUrl (URL (base_part a)), finalUrl (URL (base_part a))))
     (fst (run ex_env [ex_pass, ex_pass] ex_driver ''http://a.test/'' ex_settings ex_state))
   = Inr (''http://a.test/'', ''http://a.test/b'')"
proof -
  obtain arts s' where
    r: "run ex_env (ex_pass # [ex_pass]) ex_driver ''http://a.test/'' ex_settings ex_state
          = (Inr arts, s')"
    and ev: "filter is_observation (events s') =
       [Navigated ''http://a.test/'' (WaitForLoad True) ''http://a.test/b'', LogEnded ex_log,
        Navigated ''http://a.test/'' (WaitForLoad True) ''http://a.test/b'', LogEnded ex_log]"
    by (simp add: ex_defs run_defs)
  from final_url_of_first_pass [OF r] obtain evs final tail where
    e: "events s' = events ex_state @ evs"
    and f: "filter is_observation evs
               = Navigated ''http://a.test/'' (WaitForLoad (recordTrace ex_pass)) final # tail"
    and u: "finalUrl (URL (base_part arts)) = final"
      "requestedUrl (URL (base_part arts)) = ''http://a.test/''"
    by blast
  from e have "evs = events s'" by (simp add: ex_state_def)
  with f ev have "final = ''http://a.test/b''" by simp
  with u r show ?thesis by simp
qed

text \<open>
  C10. When a run returns, the network user agent of the bundle is the empty string if
  there was no pass; otherwise it is taken from the devtools log of the first pass, the
  first log the run ended, and from no later one. If that log has no
  \<open>Network.requestWillBeSent\<close> entry with a non-empty User-Agent header, the network
  user agent is the empty string it was initialised to.
\<close>

theorem network_user_agent_from_first_pass:
  "(run env [] drv requested stg s = (Inr arts, s') \<longrightarrow> NetworkUserAgent (base_part arts) = [])
   \<and> (run env (pc # rest) drv requested stg s = (Inr arts, s') \<longrightarrow>
        (\<exists>evs nav ld tail. events s' = events s @ evs
           \<and> filter is_observation evs = nav # LogEnded ld # tail
           \<and> NetworkUserAgent (base_part arts) = first_user_agent ld []
           \<and> ((\<forall>e \<in> set ld. \<not> (entry_method e = ''Network.requestWillBeSent'' \<and>
                    (\<exists>v. map_of (headers e) ''User-Agent'' = Some v \<and> v \<noteq> [])))
                \<longrightarrow> NetworkUserAgent (base_part arts) = [])))"
proof (intro conjI impI)
  assume "run env [] drv requested stg s = (Inr arts, s')"
  then obtain res bA where
    t: "run_try env [] drv requested stg s = (Inr (res, bA), s')"
    and a: "NetworkUserAgent (base_part arts) = NetworkUserAgent bA"
    by (rule run_Inr)
  from t obtain b0 bi sE sF where "NetworkUserAgent b0 = []"
    "run_passes env drv requested stg [] True [] (b0\<lparr>BenchmarkIndex := bi\<rparr>) sE
       = (Inr (res, bA), sF)"
    by (rule run_try_steps)
  with a show "NetworkUserAgent (base_part arts) = []" by auto
next
  assume "run env (pc # rest) drv requested stg s = (Inr arts, s')"
  then obtain res bA where
    t: "run_try env (pc # rest) drv requested stg s = (Inr (res, bA), s')"
    and a: "NetworkUserAgent (base_part arts) = NetworkUserAgent bA"
    by (rule run_Inr)
  from t obtain b0 bi sE sF evs1 evs2 where
    b: "NetworkUserAgent b0 = []"
    and p: "run_passes env drv requested stg (pc # rest) True [] (b0\<lparr>BenchmarkIndex := bi\<rparr>) sE
       = (Inr (res, bA), sF)"
    and e: "events sE = events s @ evs1" "filter is_observation evs1 = []"
      "events s' = events sF @ evs2" "filter is_observation evs2 = []"
    by (rule run_try_steps)
  from run_passes_first [OF p] obtain evs final ld tail where
    q: "events sF = events sE @ evs"
      "filter is_observation evs =
         Navigated requested (WaitForLoad (recordTrace pc)) final # LogEnded ld # tail"
      "NetworkUserAgent bA = first_user_agent ld (NetworkUserAgent (b0\<lparr>BenchmarkIndex := bi\<rparr>))"
    by blast
  have 1: "events s' = events s @ (evs1 @ evs @ evs2)" using e q by simp
  have 2: "filter is_observation (evs1 @ evs @ evs2) =
      Navigated requested (WaitForLoad (recordTrace pc)) final # LogEnded ld # tail"
    using e q by simp
  have 3: "NetworkUserAgent (base_part arts) = first_user_agent ld []" using a b q by simp
  have 4: "(\<forall>e \<in> set ld. \<not> (entry_method e = ''Network.requestWillBeSent'' \<and>
                    (\<exists>v. map_of (headers e) ''User-Agent'' = Some v \<and> v \<noteq> [])))
            \<longrightarrow> NetworkUserAgent (base_part arts) = []"
  proof
    assume n: "\<forall>e \<in> set ld. \<not> (entry_method e = ''Network.requestWillBeSent'' \<and>
                    (\<exists>v. map_of (headers e) ''User-Agent'' = Some v \<and> v \<noteq> []))"
    have "array_find (\<lambda>entry. entry_method entry = ''Network.requestWillBeSent'' \<and>
                                 has_user_agent entry) ld = None"
      unfolding array_find_None
    proof
      fix e assume "e \<in> set ld"
      with n show "\<not> (entry_method e = ''Network.requestWillBeSent'' \<and> has_user_agent e)"
        by (auto simp: has_user_agent_def obj_get_def split: option.splits)
    qed
    with 3 show "NetworkUserAgent (base_part arts) = []" by (simp add: first_user_agent_def)
  qed
  from 1 2 3 4 show "\<exists>evs nav ld tail. events s' = events s @ evs
           \<and> filter is_observation evs = nav # LogEnded ld # tail
           \<and> NetworkUserAgent (base_part arts) = first_user_agent ld []
           \<and> ((\<forall>e \<in> set ld. \<not> (entry_method e = ''Network.requestWillBeSent'' \<and>
                    (\<exists>v. map_of (headers e) ''User-Agent'' = Some v \<and> v \<noteq> [])))
                \<longrightarrow> NetworkUserAgent (base_part arts) = [])"
    by blast
qed

theorem network_user_agent_from_first_pass_witness:
  "map_sum id (\<lambda>a. NetworkUserAgent (base_part a))
     (fst (run ex_env [ex_pass, ex_pass] ex_driver ''http://a.test/'' ex_settings ex_state))
   = Inr []"
proof -
  obtain arts s' where
    r: "run ex_env (ex_pass # [ex_pass]) ex_driver ''http://a.test/'' ex_settings ex_state
          = (Inr arts, s')"
    and ev: "filter is_observation (events s') =
       [Navigated ''http://a.test/'' (WaitForLoad True) ''http://a.test/b'', LogEnded ex_log,
        Navigated ''http://a.test/'' (WaitForLoad True) ''http://a.test/b'', LogEnded ex_log]"
    by (simp add: ex_defs run_defs)
  note T = network_user_agent_from_first_pass [where env = ex_env and pc = ex_pass
      and rest = "[ex_pass]" and drv = ex_driver and requested = "''http://a.test/''"
      and stg = ex_settings and s = ex_state and arts = arts and s' = s',
      THEN conjunct2, rule_format, OF r]
  from T obtain evs nav ld tail where
    e: "events s' = events ex_state @ evs"
    and f: "filter is_observation evs = nav # LogEnded ld # tail"
    and i: "(\<forall>e \<in> set ld. \<not> (entry_method e = ''Network.requestWillBeSent'' \<and>
                    (\<exists>v. map_of (headers e) ''User-Agent'' = Some v \<and> v \<noteq> [])))
            \<longrightarrow> NetworkUserAgent (base_part arts) = []"
    by blast
  from e have "evs = events s'" by (simp add: ex_state_def)
  with f ev have "ld = ex_log" by simp
  with i have "NetworkUserAgent (base_part arts) = []" by (simp add: ex_log_def)
  with r show ?thesis by simp
qed

end
